theory Spec2Isabelle
  imports Main
begin

section \<open>cc-finder: CAS numbers to PubChem records (src/index.ts)\<close>

text \<open>
  A shallow embedding of \<^verbatim>\<open>src/index.ts\<close>. Strings are \<open>string\<close> (byte lists, read as
  UTF-8). Everything the program asks of its environment is a parameter: \<open>path.resolve\<close>,
  \<open>fs.existsSync\<close>, the records \<open>parse\<close> returns, and \<open>fetch\<close>, which is a function from the
  URL and the state of the upstream service to what the promise settles to and the next
  state.
  Exceptions are values of type \<open>exn\<close>; a function of the source that can throw returns
  \<open>exn + 'a\<close>.
\<close>

subsection \<open>JavaScript strings and values\<close>

text \<open>
  Decimal digits. \<^verbatim>\<open>`${response.status}`\<close> prints a status, an integer below 65536, so.
\<close>

definition digit_char :: "nat \<Rightarrow> char" where
  "digit_char d = ''0123456789'' ! d"

fun string_of_nat :: "nat \<Rightarrow> string" where
  "string_of_nat n =
     (if n < 10 then [digit_char n]
      else string_of_nat (n div 10) @ [digit_char (n mod 10)])"

declare string_of_nat.simps [simp del]

text \<open>
  A compound ID is a JavaScript Number: the double that \<^verbatim>\<open>JSON.parse\<close> makes of the
  integer in the body. The model keeps the integer and rounds where the code prints.
  \<open>round53\<close> is the double nearest to a natural number, ties to the even mantissa
  (53 bits); a result of \<open>2 ^ 1024\<close> or more stands for \<^verbatim>\<open>Infinity\<close>.
\<close>

fun bit_length :: "nat \<Rightarrow> nat" where
  "bit_length n = (if n = 0 then 0 else Suc (bit_length (n div 2)))"

declare bit_length.simps [simp del]

definition round53 :: "nat \<Rightarrow> nat" where
  "round53 n =
     (if bit_length n \<le> 53 then n
      else
        let e = bit_length n - 53;
            q = n div 2 ^ e;
            r = n mod 2 ^ e;
            half = 2 ^ (e - 1)
        in (if half < r \<or> (r = half \<and> odd q) then q + 1 else q) * 2 ^ e)"

text \<open>
  \<^verbatim>\<open>Number::toString\<close> prints the shortest decimal that reads back as the same double,
  the closest one when there are several. For a double \<open>x\<close> with an integer value that
  decimal is a multiple \<open>v\<close> of the highest power \<open>10 ^ j\<close> that has a multiple rounding
  to \<open>x\<close>; \<open>shortest x j\<close> looks for it from \<open>j\<close> downwards. With \<open>n\<close> digits in \<open>v\<close>, the
  text is \<open>v\<close> in decimal when \<open>n \<le> 21\<close>, and the significant digits with a point after
  the first one, \<^verbatim>\<open>e+\<close> and \<open>n - 1\<close> otherwise.
\<close>

fun shortest :: "nat \<Rightarrow> nat \<Rightarrow> nat \<times> nat" where
  "shortest x j =
     (if j = 0 then (x, 0)
      else
        let p = 10 ^ j;
            below = (x div p) * p;
            above = below + p;
            fits_below = (0 < below \<and> round53 below = x);
            fits_above = (round53 above = x)
        in if fits_below \<and> fits_above then
             (if x - below < above - x then (below, j)
              else if above - x < x - below then (above, j)
              else if even (below div p) then (below, j) else (above, j))
           else if fits_below then (below, j)
           else if fits_above then (above, j)
           else shortest x (j - 1))"

declare shortest.simps [simp del]

definition number_digits :: "nat \<Rightarrow> string" where
  "number_digits x =
     (case shortest x (length (string_of_nat x)) of
        (v, j) \<Rightarrow>
          let n = length (string_of_nat v);
              s = string_of_nat (v div 10 ^ j)
          in if n \<le> 21 then string_of_nat v
             else (if length s = 1 then s else hd s # CHR ''.'' # tl s) @
                  ''e+'' @ string_of_nat (n - 1))"

text \<open>
  \<^verbatim>\<open>`${cid}`\<close>. Up to \<open>2 ^ 53\<close> every integer is a double and its shortest decimal is
  the integer itself.
\<close>

definition number_to_string :: "int \<Rightarrow> string" where
  "number_to_string i =
     (let n = nat \<bar>i\<bar>;
          sign = (if i < 0 then ''-'' else [])
      in if n \<le> 2 ^ 53 then sign @ string_of_nat n
         else if 2 ^ 1024 \<le> round53 n then sign @ ''Infinity''
         else sign @ number_digits (round53 n))"

text \<open>
  \<^verbatim>\<open>String.prototype.trim\<close> removes white space and line terminators from both ends:
  tab, line feed, vertical tab, form feed, carriage return, space, U+00A0, U+1680,
  U+2000 to U+200A, U+2028, U+2029, U+202F, U+205F, U+3000 and U+FEFF, here in their
  UTF-8 encodings.
\<close>

definition js_whitespace :: "string list" where
  "js_whitespace =
     [[CHR 0x09], [CHR 0x0A], [CHR 0x0B], [CHR 0x0C], [CHR 0x0D], [CHR 0x20],
      [CHR 0xC2, CHR 0xA0],
      [CHR 0xE1, CHR 0x9A, CHR 0x80],
      [CHR 0xE2, CHR 0x80, CHR 0x80], [CHR 0xE2, CHR 0x80, CHR 0x81],
      [CHR 0xE2, CHR 0x80, CHR 0x82], [CHR 0xE2, CHR 0x80, CHR 0x83],
      [CHR 0xE2, CHR 0x80, CHR 0x84], [CHR 0xE2, CHR 0x80, CHR 0x85],
      [CHR 0xE2, CHR 0x80, CHR 0x86], [CHR 0xE2, CHR 0x80, CHR 0x87],
      [CHR 0xE2, CHR 0x80, CHR 0x88], [CHR 0xE2, CHR 0x80, CHR 0x89],
      [CHR 0xE2, CHR 0x80, CHR 0x8A],
      [CHR 0xE2, CHR 0x80, CHR 0xA8], [CHR 0xE2, CHR 0x80, CHR 0xA9],
      [CHR 0xE2, CHR 0x80, CHR 0xAF],
      [CHR 0xE2, CHR 0x81, CHR 0x9F],
      [CHR 0xE3, CHR 0x80, CHR 0x80],
      [CHR 0xEF, CHR 0xBB, CHR 0xBF]]"

text \<open>The rest of \<open>s\<close> after the first of the sequences \<open>ws\<close> that it starts with.\<close>

fun strip_one :: "string list \<Rightarrow> string \<Rightarrow> string option" where
  "strip_one [] s = None"
| "strip_one (w # ws) s =
     (if w \<noteq> [] \<and> take (length w) s = w then Some (drop (length w) s)
      else strip_one ws s)"

function strip_all :: "string list \<Rightarrow> string \<Rightarrow> string" where
  "strip_all ws s = (case strip_one ws s of None \<Rightarrow> s | Some s' \<Rightarrow> strip_all ws s')"
  by pat_completeness auto
termination
proof (relation "measure (\<lambda>(ws, s). length s)")
  show "wf (measure (\<lambda>(ws, s). length s))" by simp
next
  fix ws :: "string list" and s s' :: string
  assume "strip_one ws s = Some s'"
  then have "length s' < length s"
  proof (induction ws)
    case Nil
    then show ?case by simp
  next
    case (Cons w ws)
    show ?case
    proof (cases "w \<noteq> [] \<and> take (length w) s = w")
      case True
      then have "length (take (length w) s) = length w" by simp
      then have "length w \<le> length s" by (simp add: min_def split: if_splits)
      moreover have "0 < length w" using True by simp
      moreover have "length s' = length s - length w" using Cons.prems True by auto
      ultimately show ?thesis by arith
    next
      case False
      with Cons show ?thesis by simp
    qed
  qed
  then show "((ws, s'), (ws, s)) \<in> measure (\<lambda>(ws, s). length s)" by simp
qed

declare strip_all.simps [simp del]

definition trim :: "string \<Rightarrow> string" where
  "trim s = rev (strip_all (map rev js_whitespace) (rev (strip_all js_whitespace s)))"

text \<open>
  A value that may be \<^verbatim>\<open>undefined\<close> is an \<open>option\<close>. A string is truthy when it is
  defined and not empty, a number when it is defined and not zero; \<^verbatim>\<open>a || b\<close> is \<open>a\<close>
  when \<open>a\<close> is truthy and \<open>b\<close> otherwise.
\<close>

definition truthy_str :: "string option \<Rightarrow> bool" where
  "truthy_str v = (case v of None \<Rightarrow> False | Some s \<Rightarrow> s \<noteq> [])"

definition truthy_num :: "int option \<Rightarrow> bool" where
  "truthy_num v = (case v of None \<Rightarrow> False | Some n \<Rightarrow> n \<noteq> 0)"

definition or_else :: "string option \<Rightarrow> string option \<Rightarrow> string option" where
  "or_else a b = (if truthy_str a then a else b)"

definition or_literal :: "string option \<Rightarrow> string \<Rightarrow> string" where
  "or_literal a d = (if truthy_str a then the a else d)"

text \<open>
  \<^verbatim>\<open>encodeURIComponent\<close>: letters, digits and \<^verbatim>\<open>-_.!~*'()\<close> stay, every other byte
  of the UTF-8 encoding becomes \<^verbatim>\<open>%XX\<close> in upper-case hexadecimal.
\<close>

definition uri_unreserved :: "char \<Rightarrow> bool" where
  "uri_unreserved c =
     (c \<in> set (''abcdefghijklmnopqrstuvwxyz'' @ ''ABCDEFGHIJKLMNOPQRSTUVWXYZ'' @
                ''0123456789'' @ ''-_.!~*()'' @ [CHR 0x27]))"

definition hex_char :: "nat \<Rightarrow> char" where
  "hex_char d = ''0123456789ABCDEF'' ! d"

definition encodeURIComponent :: "string \<Rightarrow> string" where
  "encodeURIComponent s =
     concat (map (\<lambda>c. if uri_unreserved c then [c]
                        else [CHR ''%'', hex_char (of_char c div 16), hex_char (of_char c mod 16)]) s)"

subsection \<open>The command line: \<^verbatim>\<open>main\<close>\<close>

text \<open>
  \<^verbatim>\<open>inputPath.replace(/\.csv$/i, "_results.csv")\<close>. The pattern matches the last four
  characters when they are a dot and the letters c, s, v in either case; \<^verbatim>\<open>replace\<close>
  returns the string as it is when the pattern does not match.
\<close>

definition matches_csv_suffix :: "string \<Rightarrow> bool" where
  "matches_csv_suffix p =
     (case rev p of
        v # s # c # d # _ \<Rightarrow>
          d = CHR ''.'' \<and> (c = CHR ''c'' \<or> c = CHR ''C'') \<and>
          (s = CHR ''s'' \<or> s = CHR ''S'') \<and> (v = CHR ''v'' \<or> v = CHR ''V'')
      | _ \<Rightarrow> False)"

definition replace_csv_suffix :: "string \<Rightarrow> string" where
  "replace_csv_suffix p =
     (if matches_csv_suffix p then take (length p - 4) p @ ''_results.csv'' else p)"

text \<open>
  \<^verbatim>\<open>main\<close>: the two paths it passes to \<^verbatim>\<open>processChemicals\<close>, or why it exits with
  code 1 before that. \<open>resolve\<close> is \<^verbatim>\<open>path.resolve\<close> and \<open>exists\<close> is
  \<^verbatim>\<open>fs.existsSync\<close>. An empty second argument is falsy, so it counts as no output path.
\<close>

datatype exit1 = Usage | InputNotFound string

definition main_paths ::
  "(string \<Rightarrow> string) \<Rightarrow> (string \<Rightarrow> bool) \<Rightarrow> string list \<Rightarrow> exit1 + string \<times> string" where
  "main_paths resolve exists args =
     (case args of
        [] \<Rightarrow> Inl Usage
      | a0 # rest \<Rightarrow>
          let inputPath = resolve a0;
              outputPath =
                (case rest of
                   a1 # _ \<Rightarrow> if a1 \<noteq> [] then resolve a1 else replace_csv_suffix inputPath
                 | [] \<Rightarrow> replace_csv_suffix inputPath)
          in if \<not> exists inputPath then Inl (InputNotFound inputPath)
             else Inr (inputPath, outputPath))"

subsection \<open>HTTP: \<^verbatim>\<open>fetchWithRetry\<close>\<close>

text \<open>
  What is thrown: an \<^verbatim>\<open>Error\<close> with its message, or a value that is no instance of
  \<^verbatim>\<open>Error\<close>.
\<close>

datatype exn = Error string | NonError

text \<open>
  The JSON bodies, at the types the source casts them to. A member the source reads
  with \<^verbatim>\<open>?.\<close> or declares optional may be missing. A compound ID is the integer
  written in the body.
\<close>

record identifier_list =
  CID :: "int list option"

record search_data =
  IdentifierList :: "identifier_list option"

record properties =
  prop_CID :: int
  IUPACName :: "string option"
  Title :: "string option"
  MolecularFormula :: "string option"
  CanonicalSMILES :: "string option"
  ConnectivitySMILES :: "string option"

record property_table =
  Properties :: "properties list option"

record props_data =
  PropertyTable :: "property_table option"

datatype payload = SearchPayload search_data | PropsPayload props_data

text \<open>
  A response: its status, its status text and what \<^verbatim>\<open>response.json()\<close> settles to
  (it rejects when the body is not JSON). A body that parses to \<^verbatim>\<open>null\<close> makes the first
  member access throw a TypeError inside the same \<^verbatim>\<open>try\<close> block, so it is an \<open>Inl\<close> here
  as well. \<^verbatim>\<open>response.ok\<close> is true for 200 to 299.
\<close>

record response =
  status :: nat
  statusText :: string
  json :: "exn + payload"

definition ok :: "response \<Rightarrow> bool" where
  "ok r = (200 \<le> status r \<and> status r \<le> 299)"

datatype outcome = Resolved response | Rejected exn

type_synonym 'w fetch = "string \<Rightarrow> 'w \<Rightarrow> outcome \<times> 'w"

text \<open>What a lookup does to the outside, in order: requests and back-off sleeps.\<close>

datatype event = Fetch string | Sleep nat

record 'w net =
  upstream :: 'w
  trace :: "event list"

definition do_fetch :: "'w fetch \<Rightarrow> string \<Rightarrow> 'w net \<Rightarrow> outcome \<times> 'w net" where
  "do_fetch fetch url st =
     (case fetch url (upstream st) of
        (out, w') \<Rightarrow> (out, \<lparr>upstream = w', trace = trace st @ [Fetch url]\<rparr>))"

definition do_sleep :: "nat \<Rightarrow> 'w net \<Rightarrow> 'w net" where
  "do_sleep ms st = st\<lparr>trace := trace st @ [Sleep ms]\<rparr>"

text \<open>
  The loop \<^verbatim>\<open>for (let i = 0; i < retries; i++)\<close> of \<^verbatim>\<open>fetchWithRetry\<close>, from
  iteration \<open>i\<close>. A rejected \<^verbatim>\<open>fetch\<close> is not caught here.
\<close>

function fetchWithRetry_from ::
  "'w fetch \<Rightarrow> string \<Rightarrow> nat \<Rightarrow> nat \<Rightarrow> nat \<Rightarrow> 'w net \<Rightarrow> (exn + response) \<times> 'w net" where
  "fetchWithRetry_from fetch url retries delay i st =
     (if i < retries then
        (case do_fetch fetch url st of
           (Rejected e, st') \<Rightarrow> (Inl e, st')
         | (Resolved r, st') \<Rightarrow>
             if ok r then (Inr r, st')
             else if status r = 503 \<or> status r = 429 then
               fetchWithRetry_from fetch url retries delay (i + 1)
                 (do_sleep (delay * (i + 1)) st')
             else if status r = 404 then
               (Inl (Error ''Compound not found in PubChem''), st')
             else
               (Inl (Error (''HTTP '' @ string_of_nat (status r) @ '': '' @ statusText r)), st'))
      else (Inl (Error ''Max retries exceeded''), st))"
  by pat_completeness auto
termination
  by (relation "measure (\<lambda>(fetch, url, retries, delay, i, st). retries - i)") auto

declare fetchWithRetry_from.simps [simp del]

definition fetchWithRetry ::
  "'w fetch \<Rightarrow> string \<Rightarrow> 'w net \<Rightarrow> (exn + response) \<times> 'w net" where
  "fetchWithRetry fetch url st = fetchWithRetry_from fetch url 3 1000 0 st"

subsection \<open>One identifier: \<^verbatim>\<open>getCompoundByCas\<close>\<close>

definition PUBCHEM_BASE_URL :: string where
  "PUBCHEM_BASE_URL = ''https://pubchem.ncbi.nlm.nih.gov/rest/pug''"

record ChemicalData =
  chemical_name :: string
  smiles_code :: string
  molecular_formula :: string
  structure_image_url :: string

text \<open>The value \<^verbatim>\<open>{ data, error }\<close>; \<open>None\<close> is \<^verbatim>\<open>null\<close>.\<close>

record lookup =
  data :: "ChemicalData option"
  error :: "string option"

text \<open>
  A parsed body read at the type of the search answer or of the properties answer. An
  object of the other shape has no such member, so the member reads as
  \<^verbatim>\<open>undefined\<close>.
\<close>

fun as_search_data :: "payload \<Rightarrow> search_data" where
  "as_search_data (SearchPayload d) = d"
| "as_search_data (PropsPayload _) = \<lparr>IdentifierList = None\<rparr>"

fun as_props_data :: "payload \<Rightarrow> props_data" where
  "as_props_data (PropsPayload d) = d"
| "as_props_data (SearchPayload _) = \<lparr>PropertyTable = None\<rparr>"

text \<open>\<^verbatim>\<open>xs?.[0]\<close>\<close>

definition first_of :: "'a list option \<Rightarrow> 'a option" where
  "first_of v = (case v of None \<Rightarrow> None | Some [] \<Rightarrow> None | Some (x # _) \<Rightarrow> Some x)"

text \<open>\<^verbatim>\<open>searchData.IdentifierList?.CID?.[0]\<close>\<close>

definition first_cid :: "search_data \<Rightarrow> int option" where
  "first_cid searchData =
     (case IdentifierList searchData of None \<Rightarrow> None | Some il \<Rightarrow> first_of (CID il))"

text \<open>\<^verbatim>\<open>propsData.PropertyTable?.Properties?.[0]\<close>\<close>

definition first_props :: "props_data \<Rightarrow> properties option" where
  "first_props propsData =
     (case PropertyTable propsData of None \<Rightarrow> None | Some t \<Rightarrow> first_of (Properties t))"

definition searchUrl :: "string \<Rightarrow> string" where
  "searchUrl casNumber =
     PUBCHEM_BASE_URL @ ''/compound/name/'' @ encodeURIComponent casNumber @ ''/cids/JSON''"

definition propsUrl :: "int \<Rightarrow> string" where
  "propsUrl cid =
     PUBCHEM_BASE_URL @ ''/compound/cid/'' @ number_to_string cid @
     ''/property/IUPACName,Title,MolecularFormula,CanonicalSMILES/JSON''"

definition structureImageUrl :: "int \<Rightarrow> string" where
  \<open>structureImageUrl cid =
     ''=IMAGE("https://pubchem.ncbi.nlm.nih.gov/rest/pug/compound/cid/'' @
     number_to_string cid @ ''/PNG")''\<close>

definition build_data :: "int \<Rightarrow> properties \<Rightarrow> ChemicalData" where
  "build_data cid props =
     \<lparr>chemical_name = or_literal (or_else (Title props) (IUPACName props)) [],
      smiles_code = or_literal (or_else (CanonicalSMILES props) (ConnectivitySMILES props)) [],
      molecular_formula = or_literal (MolecularFormula props) [],
      structure_image_url = structureImageUrl cid\<rparr>"

text \<open>The \<^verbatim>\<open>try\<close> block: \<open>Inl\<close> is what it throws.\<close>

definition getCompoundByCas_try ::
  "'w fetch \<Rightarrow> string \<Rightarrow> 'w net \<Rightarrow> (exn + lookup) \<times> 'w net" where
  "getCompoundByCas_try fetch casNumber st =
     (case fetchWithRetry fetch (searchUrl casNumber) st of
        (Inl e, st1) \<Rightarrow> (Inl e, st1)
      | (Inr searchResponse, st1) \<Rightarrow>
          (case json searchResponse of
             Inl e \<Rightarrow> (Inl e, st1)
           | Inr body \<Rightarrow>
               let cid = first_cid (as_search_data body) in
               if \<not> truthy_num cid then
                 (Inr \<lparr>data = None, error = Some ''No compound found for this CAS number''\<rparr>, st1)
               else
                 (case fetchWithRetry fetch (propsUrl (the cid)) st1 of
                    (Inl e, st2) \<Rightarrow> (Inl e, st2)
                  | (Inr propsResponse, st2) \<Rightarrow>
                      (case json propsResponse of
                         Inl e \<Rightarrow> (Inl e, st2)
                       | Inr body2 \<Rightarrow>
                           (case first_props (as_props_data body2) of
                              None \<Rightarrow>
                                (Inr \<lparr>data = None,
                                      error = Some ''Could not retrieve compound properties''\<rparr>, st2)
                            | Some props \<Rightarrow>
                                (Inr \<lparr>data = Some (build_data (the cid) props), error = None\<rparr>,
                                 st2))))))"

text \<open>The \<^verbatim>\<open>catch\<close> clause.\<close>

definition errorMessage :: "exn \<Rightarrow> string" where
  "errorMessage e = (case e of Error m \<Rightarrow> m | NonError \<Rightarrow> ''Unknown error occurred'')"

definition getCompoundByCas :: "'w fetch \<Rightarrow> string \<Rightarrow> 'w net \<Rightarrow> lookup \<times> 'w net" where
  "getCompoundByCas fetch casNumber st =
     (case getCompoundByCas_try fetch casNumber st of
        (Inr r, st') \<Rightarrow> (r, st')
      | (Inl e, st') \<Rightarrow> (\<lparr>data = None, error = Some (errorMessage e)\<rparr>, st'))"

subsection \<open>The input reader: \<^verbatim>\<open>readCasNumbersFromCsv\<close>\<close>

text \<open>
  A record of \<^verbatim>\<open>parse(fileContent, {columns: true, skip_empty_lines: true, trim: true})\<close>
  maps the column names of the header to the fields of one line, which the parser has
  trimmed. The model starts from these records.
\<close>

type_synonym csv_record = "string \<rightharpoonup> string"

definition casNumber_of :: "csv_record \<Rightarrow> string option" where
  "casNumber_of r =
     or_else (or_else (or_else (r ''cas_number'') (r ''CAS'')) (r ''cas'')) (r ''CAS Number'')"

fun readCasNumbers_loop :: "string list \<Rightarrow> csv_record list \<Rightarrow> string list" where
  "readCasNumbers_loop casNumbers [] = casNumbers"
| "readCasNumbers_loop casNumbers (r # records) =
     (let casNumber = casNumber_of r in
      if truthy_str casNumber then readCasNumbers_loop (casNumbers @ [trim (the casNumber)]) records
      else readCasNumbers_loop casNumbers records)"

definition readCasNumbersFromCsv :: "csv_record list \<Rightarrow> string list" where
  "readCasNumbersFromCsv records = readCasNumbers_loop [] records"

subsection \<open>The worker pool: \<^verbatim>\<open>processInParallel\<close>\<close>

text \<open>
  JavaScript runs one task at a time and switches only at an \<^verbatim>\<open>await\<close>. A worker is
  suspended at its one \<^verbatim>\<open>await\<close>, on the processor's promise for the index it claimed,
  or its own promise has settled. The processor reads and writes none of the pool's
  variables, so its promise settling is one event; \<open>settle\<close> is what the worker then
  does up to its next \<^verbatim>\<open>await\<close>. The pool's state:
  \<^item> \<open>currentIndex\<close> and \<open>results\<close> as in the source (\<open>None\<close> is an empty slot of
    \<^verbatim>\<open>new Array(items.length)\<close>),
  \<^item> \<open>workers\<close>, the state of each worker's promise,
  \<^item> \<open>rejection\<close>, the first rejection \<^verbatim>\<open>Promise.all\<close> has seen,
  \<^item> \<open>calls\<close>, the indices the processor has been called with, in the order of the calls.
\<close>

datatype wstate = Awaiting nat | Done | Thrown exn

record 'r pool =
  currentIndex :: nat
  results :: "'r option list"
  workers :: "wstate list"
  rejection :: "exn option"
  calls :: "nat list"

text \<open>
  The head of the \<^verbatim>\<open>while\<close> loop up to the \<^verbatim>\<open>await\<close>: test the cursor, claim the index
  and call the processor, or leave the loop.
\<close>

definition claim :: "nat \<Rightarrow> 'r pool \<Rightarrow> wstate \<times> 'r pool" where
  "claim n s =
     (if currentIndex s < n then
        (Awaiting (currentIndex s),
         s\<lparr>currentIndex := currentIndex s + 1, calls := calls s @ [currentIndex s]\<rparr>)
      else (Done, s))"

text \<open>\<^verbatim>\<open>.map(() => worker())\<close>: each worker starts and runs to its first \<^verbatim>\<open>await\<close>.\<close>

fun spawn :: "nat \<Rightarrow> nat \<Rightarrow> 'r pool \<Rightarrow> 'r pool" where
  "spawn n 0 s = s"
| "spawn n (Suc k) s =
     (case claim n s of (w, s') \<Rightarrow> spawn n k (s'\<lparr>workers := workers s' @ [w]\<rparr>))"

text \<open>
  The state when \<^verbatim>\<open>processInParallel\<close> reaches \<^verbatim>\<open>await Promise.all(workers)\<close>.
  \<^verbatim>\<open>Array(k)\<close> throws a RangeError for a negative \<open>k\<close>.
\<close>

definition start :: "'a list \<Rightarrow> int \<Rightarrow> exn + 'r pool" where
  "start items concurrency =
     (let n = length items; m = min concurrency (int n) in
      if m < 0 then Inl (Error ''Invalid array length'')
      else Inr (spawn n (nat m)
             \<lparr>currentIndex = 0, results = replicate n None, workers = [], rejection = None,
              calls = []\<rparr>))"

text \<open>
  The processor's promise of worker \<open>k\<close> settles. Fulfilled: the worker stores the value
  at the index it claimed and goes round the loop. Rejected: the worker's promise
  rejects. \<open>None\<close> when worker \<open>k\<close> is not waiting. An index is claimed only below
  \<^verbatim>\<open>items.length\<close>, so \<open>items ! index\<close> and the slot of \<open>results\<close> exist.
\<close>

definition settle ::
  "'a list \<Rightarrow> ('a \<Rightarrow> nat \<Rightarrow> exn + 'r) \<Rightarrow> nat \<Rightarrow> 'r pool \<Rightarrow> 'r pool option" where
  "settle items processor k s =
     (if k < length (workers s) then
        (case workers s ! k of
           Awaiting index \<Rightarrow>
             (case processor (items ! index) index of
                Inr v \<Rightarrow>
                  (case claim (length items) (s\<lparr>results := (results s)[index := Some v]\<rparr>) of
                     (w, s') \<Rightarrow> Some (s'\<lparr>workers := (workers s')[k := w]\<rparr>))
              | Inl e \<Rightarrow>
                  Some (s\<lparr>workers := (workers s)[k := Thrown e],
                          rejection := (case rejection s of None \<Rightarrow> Some e | Some e0 \<Rightarrow> Some e0)\<rparr>))
         | _ \<Rightarrow> None)
      else None)"

text \<open>
  A completion order names, event by event, the worker whose processor settles next.
  \<open>run\<close> is \<open>None\<close> when the order names a worker that is not waiting.
\<close>

fun run ::
  "'a list \<Rightarrow> ('a \<Rightarrow> nat \<Rightarrow> exn + 'r) \<Rightarrow> nat list \<Rightarrow> 'r pool \<Rightarrow> 'r pool option" where
  "run items processor [] s = Some s"
| "run items processor (k # ks) s =
     (case settle items processor k s of None \<Rightarrow> None | Some s' \<Rightarrow> run items processor ks s')"

text \<open>
  The promise \<^verbatim>\<open>processInParallel\<close> returns: rejected with the first rejection of a
  worker, fulfilled with \<open>results\<close> once every worker has left its loop.
\<close>

datatype 'a promise = Pending | Fulfilled 'a | RejectedWith exn

definition promise_of :: "'r pool \<Rightarrow> 'r option list promise" where
  "promise_of s =
     (case rejection s of
        Some e \<Rightarrow> RejectedWith e
      | None \<Rightarrow> if list_all (\<lambda>w. w = Done) (workers s) then Fulfilled (results s) else Pending)"

definition in_flight :: "'r pool \<Rightarrow> nat list" where
  "in_flight s = concat (map (\<lambda>w. case w of Awaiting i \<Rightarrow> [i] | _ \<Rightarrow> []) (workers s))"

text \<open>
  \<^verbatim>\<open>processInParallel(items, processor, concurrency)\<close> after the processors have settled
  in the given order; \<open>None\<close> when that order is not possible.
\<close>

definition processInParallel ::
  "'a list \<Rightarrow> ('a \<Rightarrow> nat \<Rightarrow> exn + 'r) \<Rightarrow> int \<Rightarrow> nat list \<Rightarrow> 'r option list promise option" where
  "processInParallel items processor concurrency order =
     (case start items concurrency of
        Inl e \<Rightarrow> (if order = [] then Some (RejectedWith e) else None)
      | Inr s0 \<Rightarrow> map_option promise_of (run items processor order s0))"

subsection \<open>The pipeline: \<^verbatim>\<open>processChemicals\<close>\<close>

definition CONCURRENCY_LIMIT :: int where
  "CONCURRENCY_LIMIT = 5"

record OutputRow = ChemicalData +
  cas_number :: string
  row_status :: string
  row_error :: "string option"

text \<open>The row the processor of \<^verbatim>\<open>processChemicals\<close> builds from \<^verbatim>\<open>{ data, error }\<close>.\<close>

definition to_row :: "string \<Rightarrow> lookup \<Rightarrow> OutputRow" where
  "to_row casNumber r =
     (case data r of
        Some d \<Rightarrow>
          \<lparr>chemical_name = chemical_name d, smiles_code = smiles_code d,
           molecular_formula = molecular_formula d,
           structure_image_url = structure_image_url d,
           cas_number = casNumber, row_status = ''success'', row_error = None\<rparr>
      | None \<Rightarrow>
          \<lparr>chemical_name = [], smiles_code = [], molecular_formula = [],
           structure_image_url = [],
           cas_number = casNumber, row_status = ''failed'',
           row_error = Some (or_literal (error r) ''Unknown error'')\<rparr>)"

text \<open>
  \<open>upstream_for index\<close> is the state of the service as the lookup of that index meets
  it: it fixes the responses the lookup receives. The arrow function calls nothing that
  throws outside \<^verbatim>\<open>getCompoundByCas\<close>, so its promise fulfils.
\<close>

definition lookup_row :: "'w fetch \<Rightarrow> (nat \<Rightarrow> 'w) \<Rightarrow> string \<Rightarrow> nat \<Rightarrow> exn + OutputRow" where
  "lookup_row fetch upstream_for casNumber index =
     Inr (to_row casNumber
            (fst (getCompoundByCas fetch casNumber \<lparr>upstream = upstream_for index, trace = []\<rparr>)))"

text \<open>
  The rows \<^verbatim>\<open>processChemicals\<close> hands to \<^verbatim>\<open>writeResultsToCsv\<close>, from the parsed
  records of the input file.
\<close>

definition processChemicals ::
  "'w fetch \<Rightarrow> (nat \<Rightarrow> 'w) \<Rightarrow> csv_record list \<Rightarrow> nat list \<Rightarrow> OutputRow option list promise option" where
  "processChemicals fetch upstream_for records order =
     processInParallel (readCasNumbersFromCsv records) (lookup_row fetch upstream_for)
       CONCURRENCY_LIMIT order"

subsection \<open>A scripted upstream\<close>

text \<open>
  A test double for \<^verbatim>\<open>fetch\<close>: the service answers the requests it receives with the
  outcomes of a list, one after the other, whatever the URL. When the list is used up
  the request fails as a lost connection does.
\<close>

definition scripted :: "outcome list fetch" where
  "scripted url w =
     (case w of [] \<Rightarrow> (Rejected (Error ''fetch failed''), []) | out # w' \<Rightarrow> (out, w'))"

definition http :: "nat \<Rightarrow> outcome" where
  "http code = Resolved \<lparr>status = code, statusText = [], json = Inl (Error ''Unexpected end of JSON input'')\<rparr>"

definition http_json :: "payload \<Rightarrow> outcome" where
  "http_json body = Resolved \<lparr>status = 200, statusText = ''OK'', json = Inr body\<rparr>"

definition cids_json :: "int list \<Rightarrow> outcome" where
  "cids_json cids = http_json (SearchPayload \<lparr>IdentifierList = Some \<lparr>CID = Some cids\<rparr>\<rparr>)"

definition props_json :: "properties list \<Rightarrow> outcome" where
  "props_json ps = http_json (PropsPayload \<lparr>PropertyTable = Some \<lparr>Properties = Some ps\<rparr>\<rparr>)"

text \<open>A property record that lacks a title, a formula and a primary notation.\<close>

definition formaldehyde :: properties where
  "formaldehyde =
     \<lparr>prop_CID = 712, IUPACName = Some ''formaldehyde'', Title = None,
      MolecularFormula = None, CanonicalSMILES = Some [], ConnectivitySMILES = Some ''C=O''\<rparr>"

text \<open>
  Three identifiers: the first resolves, the second has no ID upstream, the third meets
  three 503 responses.
\<close>

definition demo_ids :: "string list" where
  "demo_ids = [''50-00-0'', ''0000-00-0'', ''64-17-5'']"

definition demo_records :: "csv_record list" where
  "demo_records =
     [[''cas_number'' \<mapsto> ''50-00-0''], [''cas_number'' \<mapsto> ''0000-00-0''],
      [''cas_number'' \<mapsto> ''64-17-5'']]"

definition demo_upstream :: "nat \<Rightarrow> outcome list" where
  "demo_upstream i =
     (if i = 0 then [cids_json [712], props_json [formaldehyde]]
      else if i = 1 then [cids_json []]
      else [http 503, http 503, http 503])"

definition demo_rows :: "OutputRow list" where
  \<open>demo_rows =
     [\<lparr>chemical_name = ''formaldehyde'', smiles_code = ''C=O'', molecular_formula = [],
       structure_image_url =
         ''=IMAGE("https://pubchem.ncbi.nlm.nih.gov/rest/pug/compound/cid/712/PNG")'',
       cas_number = ''50-00-0'', row_status = ''success'', row_error = None\<rparr>,
      \<lparr>chemical_name = [], smiles_code = [], molecular_formula = [], structure_image_url = [],
       cas_number = ''0000-00-0'', row_status = ''failed'',
       row_error = Some ''No compound found for this CAS number''\<rparr>,
      \<lparr>chemical_name = [], smiles_code = [], molecular_formula = [], structure_image_url = [],
       cas_number = ''64-17-5'', row_status = ''failed'',
       row_error = Some ''Max retries exceeded''\<rparr>]\<close>

subsection \<open>The pool's invariant\<close>

text \<open>
  What holds in every state the pool reaches when the processor fulfils with \<open>f i\<close> at
  index \<open>i\<close>, for \<open>n\<close> items and \<open>m\<close> workers: the cursor has passed exactly the indices
  called so far; a waiting worker holds an index below the cursor whose slot is still
  empty, and no two workers hold the same one; a worker has left its loop only once the
  cursor is at the end; a slot is empty only when its index is unclaimed or in flight,
  and a filled slot holds the value for its own index. \<open>settled\<close> counts the filled slots.
\<close>

definition pool_inv :: "nat \<Rightarrow> nat \<Rightarrow> (nat \<Rightarrow> 'r) \<Rightarrow> 'r pool \<Rightarrow> bool" where
  "pool_inv n m f s \<longleftrightarrow>
     length (results s) = n \<and> length (workers s) = m \<and> currentIndex s \<le> n \<and>
     calls s = [0..<currentIndex s] \<and> rejection s = None \<and>
     (\<forall>k<m. case workers s ! k of
               Awaiting i \<Rightarrow> i < currentIndex s \<and> results s ! i = None
             | Done \<Rightarrow> currentIndex s = n
             | Thrown e \<Rightarrow> False) \<and>
     (\<forall>k<m. \<forall>k'<m. \<forall>i. workers s ! k = Awaiting i \<and> workers s ! k' = Awaiting i \<longrightarrow> k = k') \<and>
     (\<forall>i<n. results s ! i = None \<longrightarrow> currentIndex s \<le> i \<or> (\<exists>k<m. workers s ! k = Awaiting i)) \<and>
     (\<forall>i<n. \<forall>v. results s ! i = Some v \<longrightarrow> v = f i \<and> i < currentIndex s)"

definition settled :: "'r pool \<Rightarrow> nat" where
  "settled s = length (filter (\<lambda>x. x \<noteq> None) (results s))"

subsection \<open>The specification's words\<close>

text \<open>
  A suffix matched without regard to the case of ASCII letters, as the specification
  words the test that the source writes as the pattern \<^verbatim>\<open>/\.csv$/i\<close>.
\<close>

definition ascii_lower :: "char \<Rightarrow> char" where
  "ascii_lower c =
     (case map_of (zip ''ABCDEFGHIJKLMNOPQRSTUVWXYZ'' ''abcdefghijklmnopqrstuvwxyz'') c of
        Some l \<Rightarrow> l | None \<Rightarrow> c)"

definition ends_with_ci :: "string \<Rightarrow> string \<Rightarrow> bool" where
  "ends_with_ci sfx p =
     (length sfx \<le> length p \<and>
      map ascii_lower (drop (length p - length sfx) p) = map ascii_lower sfx)"

text \<open>
  The retry policy as the specification words it: which outcome of a request is tried
  again, and what any other outcome makes of the request.
\<close>

definition policy_retry :: "outcome \<Rightarrow> bool" where
  "policy_retry out =
     (case out of Resolved r \<Rightarrow> status r = 503 \<or> status r = 429 | Rejected e \<Rightarrow> False)"

definition policy_verdict :: "outcome \<Rightarrow> exn + response" where
  "policy_verdict out =
     (case out of
        Rejected e \<Rightarrow> Inl e
      | Resolved r \<Rightarrow>
          if 200 \<le> status r \<and> status r \<le> 299 then Inr r
          else if status r = 404 then Inl (Error ''Compound not found in PubChem'')
          else Inl (Error (''HTTP '' @ string_of_nat (status r) @ '': '' @ statusText r)))"

text \<open>The requests made so far.\<close>

definition attempts :: "event list \<Rightarrow> nat" where
  "attempts evs = length (filter (\<lambda>e. case e of Fetch u \<Rightarrow> True | Sleep ms \<Rightarrow> False) evs)"

text \<open>An integer in decimal, with its sign.\<close>

definition decimal :: "int \<Rightarrow> string" where
  "decimal i = (if i < 0 then CHR ''-'' # string_of_nat (nat (- i)) else string_of_nat (nat i))"

text \<open>
  The first available of some optional strings, else the empty string. A string is
  available when it is present and not empty, as \<^verbatim>\<open>a || b || ""\<close> reads it.
\<close>

fun first_available :: "string option list \<Rightarrow> string" where
  "first_available [] = []"
| "first_available (None # vs) = first_available vs"
| "first_available (Some s # vs) = (if s \<noteq> [] then s else first_available vs)"

text \<open>
  The recognised columns in their priority order, and the first value of a record among
  them that is not empty.
\<close>

definition recognized_columns :: "string list" where
  "recognized_columns = [''cas_number'', ''CAS'', ''cas'', ''CAS Number'']"

definition first_nonempty :: "csv_record \<Rightarrow> string option" where
  "first_nonempty r = find (\<lambda>v. v \<noteq> []) (List.map_filter r recognized_columns)"

text \<open>The row the specification puts at index \<open>i\<close>: the one of the lookup of identifier \<open>i\<close>.\<close>

definition row_for :: "'w fetch \<Rightarrow> (nat \<Rightarrow> 'w) \<Rightarrow> string list \<Rightarrow> nat \<Rightarrow> OutputRow" where
  "row_for fetch upstream_for ids i =
     to_row (ids ! i)
       (fst (getCompoundByCas fetch (ids ! i) \<lparr>upstream = upstream_for i, trace = []\<rparr>))"

section \<open>Properties\<close>

subsection \<open>The output path\<close>

lemma lower_dot: "ascii_lower c = CHR ''.'' \<longleftrightarrow> c = CHR ''.''"
  by (simp add: ascii_lower_def)

lemma lower_c: "ascii_lower c = CHR ''c'' \<longleftrightarrow> c = CHR ''c'' \<or> c = CHR ''C''"
  by (simp add: ascii_lower_def)

lemma lower_s: "ascii_lower c = CHR ''s'' \<longleftrightarrow> c = CHR ''s'' \<or> c = CHR ''S''"
  by (simp add: ascii_lower_def)

lemma lower_v: "ascii_lower c = CHR ''v'' \<longleftrightarrow> c = CHR ''v'' \<or> c = CHR ''V''"
  by (simp add: ascii_lower_def)

lemma rev_four:
  "rev p = v # s # c # d # r \<longleftrightarrow> p = rev r @ [d, c, s, v]"
  by (metis append.assoc append_Cons append_Nil rev.simps(2) rev_rev_ident rev_swap)

lemma matches_csv_suffix_iff: "matches_csv_suffix p \<longleftrightarrow> ends_with_ci ''.csv'' p"
proof (cases "rev p")
  case Nil
  then show ?thesis by (simp add: matches_csv_suffix_def ends_with_ci_def)
next
  case (Cons v r1)
  show ?thesis
  proof (cases r1)
    case Nil
    with Cons have "length p = 1" by (metis length_rev length_Cons list.size(3) One_nat_def)
    with Cons Nil show ?thesis by (simp add: matches_csv_suffix_def ends_with_ci_def)
  next
    case (Cons s r2)
    note c2 = this
    show ?thesis
    proof (cases r2)
      case Nil
      with \<open>rev p = v # r1\<close> c2 have "length (rev p) = 2" by simp
      then have "length p = 2" by simp
      with \<open>rev p = v # r1\<close> c2 Nil show ?thesis by (simp add: matches_csv_suffix_def ends_with_ci_def)
    next
      case (Cons c r3)
      note c3 = this
      show ?thesis
      proof (cases r3)
        case Nil
        with \<open>rev p = v # r1\<close> c2 c3 have "length (rev p) = 3" by simp
        then have "length p = 3" by simp
        with \<open>rev p = v # r1\<close> c2 c3 Nil show ?thesis
          by (simp add: matches_csv_suffix_def ends_with_ci_def)
      next
        case (Cons d r)
        with \<open>rev p = v # r1\<close> c2 c3 have rp: "rev p = v # s # c # d # r" by simp
        then have p: "p = rev r @ [d, c, s, v]" by (simp add: rev_four)
        have low: "map ascii_lower ''.csv'' = ''.csv''" by (simp add: ascii_lower_def)
        show ?thesis
          unfolding matches_csv_suffix_def rp ends_with_ci_def low
          by (auto simp: p lower_dot lower_c lower_s lower_v)
      qed
    qed
  qed
qed

text \<open>
  What \<^verbatim>\<open>main\<close> makes of one argument that names an existing file: the output path is
  the resolved input path with the replacement applied, which changes it only when it
  ends in \<^verbatim>\<open>.csv\<close> in some case.
\<close>

lemma derived_output_path:
  "exists (resolve a0) \<Longrightarrow>
   main_paths resolve exists [a0] =
     Inr (resolve a0,
          if ends_with_ci ''.csv'' (resolve a0)
          then take (length (resolve a0) - 4) (resolve a0) @ ''_results.csv''
          else resolve a0)"
  by (simp add: main_paths_def replace_csv_suffix_def matches_csv_suffix_iff Let_def)

lemma derived_output_path_csv:
  "main_paths (\<lambda>p. p) (\<lambda>p. True) [''/data/foo.csv''] =
     Inr (''/data/foo.csv'', ''/data/foo_results.csv'') \<and>
   main_paths (\<lambda>p. p) (\<lambda>p. True) [''/data/FOO.CSV''] =
     Inr (''/data/FOO.CSV'', ''/data/FOO_results.csv'') \<and>
   main_paths (\<lambda>p. p) (\<lambda>p. False) [''/data/foo.csv''] = Inl (InputNotFound ''/data/foo.csv'') \<and>
   main_paths (\<lambda>p. p) (\<lambda>p. True) [] = Inl Usage"
  by (simp add: main_paths_def replace_csv_suffix_def matches_csv_suffix_def Let_def)

text \<open>
  C1, where the code departs from it. For the existing file \<^verbatim>\<open>/data/foo.txt\<close>, which
  lacks the suffix, \<^verbatim>\<open>main\<close> appends nothing: the output path it passes on is the input
  path, so the results are written over the input file, where C1 and the README have a
  new file with the suffix added to the name.
\<close>

theorem output_path_overwrites_input:
  "\<not> ends_with_ci ''.csv'' ''/data/foo.txt'' \<and>
   main_paths (\<lambda>p. p) (\<lambda>p. True) [''/data/foo.txt''] = Inr (''/data/foo.txt'', ''/data/foo.txt'') \<and>
   main_paths (\<lambda>p. p) (\<lambda>p. True) [''/data/foo.txt''] \<noteq>
     Inr (''/data/foo.txt'', ''/data/foo.txt'' @ ''_results.csv'') \<and>
   main_paths (\<lambda>p. p) (\<lambda>p. True) [''/data/foo.txt''] \<noteq>
     Inr (''/data/foo.txt'', ''/data/foo_results.csv'')"
  by (simp add: main_paths_def replace_csv_suffix_def matches_csv_suffix_def ends_with_ci_def
      ascii_lower_def Let_def)

subsection \<open>Retries\<close>

lemma do_fetch_trace: "do_fetch fetch url st = (out, st') \<Longrightarrow> trace st' = trace st @ [Fetch url]"
  by (auto simp: do_fetch_def split: prod.splits)

lemma do_sleep_trace: "trace (do_sleep ms st) = trace st @ [Sleep ms]"
  by (simp add: do_sleep_def)

lemma fetchWithRetry_unroll:
  assumes "do_fetch fetch url st = (o1, s1)"
    and "do_fetch fetch url (do_sleep 1000 s1) = (o2, s2)"
    and "do_fetch fetch url (do_sleep 2000 s2) = (o3, s3)"
  shows "fetchWithRetry fetch url st =
     (if \<not> policy_retry o1 then (policy_verdict o1, s1)
      else if \<not> policy_retry o2 then (policy_verdict o2, s2)
      else if \<not> policy_retry o3 then (policy_verdict o3, s3)
      else (Inl (Error ''Max retries exceeded''), do_sleep 3000 s3))"
proof -
  have one: "\<And>i s out s'. i < 3 \<Longrightarrow> do_fetch fetch url s = (out, s') \<Longrightarrow>
      fetchWithRetry_from fetch url 3 1000 i s =
        (if policy_retry out
         then fetchWithRetry_from fetch url 3 1000 (Suc i) (do_sleep (1000 * Suc i) s')
         else (policy_verdict out, s'))"
    by (subst fetchWithRetry_from.simps)
      (auto simp: policy_retry_def policy_verdict_def ok_def split: outcome.splits)
  have last: "\<And>s. fetchWithRetry_from fetch url 3 1000 (Suc (Suc (Suc 0))) s =
      (Inl (Error ''Max retries exceeded''), s)"
    by (subst fetchWithRetry_from.simps) simp
  have a: "fetchWithRetry_from fetch url 3 1000 0 st =
        (if policy_retry o1
         then fetchWithRetry_from fetch url 3 1000 (Suc 0) (do_sleep 1000 s1)
         else (policy_verdict o1, s1))"
    using one [of 0 st o1 s1] assms(1) by simp
  have b: "fetchWithRetry_from fetch url 3 1000 (Suc 0) (do_sleep 1000 s1) =
        (if policy_retry o2
         then fetchWithRetry_from fetch url 3 1000 (Suc (Suc 0)) (do_sleep 2000 s2)
         else (policy_verdict o2, s2))"
    using one [of "Suc 0" "do_sleep 1000 s1" o2 s2] assms(2) by simp
  have c: "fetchWithRetry_from fetch url 3 1000 (Suc (Suc 0)) (do_sleep 2000 s2) =
        (if policy_retry o3
         then fetchWithRetry_from fetch url 3 1000 (Suc (Suc (Suc 0))) (do_sleep 3000 s3)
         else (policy_verdict o3, s3))"
    using one [of "Suc (Suc 0)" "do_sleep 2000 s2" o3 s3] assms(3) by simp
  show ?thesis unfolding fetchWithRetry_def a b c last by simp
qed

text \<open>
  C3. With \<open>o1\<close>, \<open>o2\<close>, \<open>o3\<close> what the first, second and third request settle to:
  \<^verbatim>\<open>fetchWithRetry\<close> makes at most three requests; it goes on to the next request only
  after a 503 or a 429, sleeping 1000, 2000 and 3000 ms after the first, second and third
  of them; a 2xx response is returned; a 404 fails with
  \<^verbatim>\<open>Compound not found in PubChem\<close> and any other status with a message that holds the
  status code, both at once; a third 503 or 429 fails with \<^verbatim>\<open>Max retries exceeded\<close>.
\<close>

theorem fetchWithRetry_policy:
  assumes "do_fetch fetch url st = (o1, s1)"
    and "do_fetch fetch url (do_sleep 1000 s1) = (o2, s2)"
    and "do_fetch fetch url (do_sleep 2000 s2) = (o3, s3)"
  shows "fetchWithRetry fetch url st =
     (if \<not> policy_retry o1 then (policy_verdict o1, s1)
      else if \<not> policy_retry o2 then (policy_verdict o2, s2)
      else if \<not> policy_retry o3 then (policy_verdict o3, s3)
      else (Inl (Error ''Max retries exceeded''), do_sleep 3000 s3)) \<and>
     attempts (trace (snd (fetchWithRetry fetch url st))) \<le> attempts (trace st) + 3"
proof -
  note u = fetchWithRetry_unroll [OF assms]
  have t1: "trace s1 = trace st @ [Fetch url]" by (rule do_fetch_trace [OF assms(1)])
  have t2: "trace s2 = trace st @ [Fetch url, Sleep 1000, Fetch url]"
    using do_fetch_trace [OF assms(2)] t1 by (simp add: do_sleep_trace)
  have t3: "trace s3 = trace st @ [Fetch url, Sleep 1000, Fetch url, Sleep 2000, Fetch url]"
    using do_fetch_trace [OF assms(3)] t2 by (simp add: do_sleep_trace)
  have "attempts (trace (snd (fetchWithRetry fetch url st))) \<le> attempts (trace st) + 3"
    unfolding u by (simp add: t1 t2 t3 do_sleep_trace attempts_def)
  with u show ?thesis by simp
qed

text \<open>
  C3 on response sequences: two 429 then a 200; three 503; a 404; a 500.
\<close>

theorem fetchWithRetry_policy_witness:
  "fetchWithRetry scripted ''u'' \<lparr>upstream = [http 429, http 429, http 200], trace = []\<rparr> =
     (Inr \<lparr>status = 200, statusText = [], json = Inl (Error ''Unexpected end of JSON input'')\<rparr>,
      \<lparr>upstream = [], trace = [Fetch ''u'', Sleep 1000, Fetch ''u'', Sleep 2000, Fetch ''u'']\<rparr>) \<and>
   fetchWithRetry scripted ''u'' \<lparr>upstream = [http 503, http 503, http 503, http 200], trace = []\<rparr> =
     (Inl (Error ''Max retries exceeded''),
      \<lparr>upstream = [http 200],
       trace = [Fetch ''u'', Sleep 1000, Fetch ''u'', Sleep 2000, Fetch ''u'', Sleep 3000]\<rparr>) \<and>
   fetchWithRetry scripted ''u'' \<lparr>upstream = [http 404, http 200, http 200], trace = []\<rparr> =
     (Inl (Error ''Compound not found in PubChem''),
      \<lparr>upstream = [http 200, http 200], trace = [Fetch ''u'']\<rparr>) \<and>
   fetchWithRetry scripted ''u'' \<lparr>upstream = [http 500, http 200, http 200], trace = []\<rparr> =
     (Inl (Error ''HTTP 500: ''),
      \<lparr>upstream = [http 200, http 200], trace = [Fetch ''u'']\<rparr>)"
proof -
  let ?u = "''u''"
  have a: "fetchWithRetry scripted ?u \<lparr>upstream = [http 429, http 429, http 200], trace = []\<rparr> =
     (Inr \<lparr>status = 200, statusText = [], json = Inl (Error ''Unexpected end of JSON input'')\<rparr>,
      \<lparr>upstream = [], trace = [Fetch ?u, Sleep 1000, Fetch ?u, Sleep 2000, Fetch ?u]\<rparr>)"
    using fetchWithRetry_policy [of scripted ?u
        "\<lparr>upstream = [http 429, http 429, http 200], trace = []\<rparr>"
        "http 429" "\<lparr>upstream = [http 429, http 200], trace = [Fetch ?u]\<rparr>"
        "http 429" "\<lparr>upstream = [http 200], trace = [Fetch ?u, Sleep 1000, Fetch ?u]\<rparr>"
        "http 200" "\<lparr>upstream = [], trace = [Fetch ?u, Sleep 1000, Fetch ?u, Sleep 2000, Fetch ?u]\<rparr>"]
    by (simp add: do_fetch_def do_sleep_def scripted_def http_def policy_retry_def policy_verdict_def)
  have b: "fetchWithRetry scripted ?u \<lparr>upstream = [http 503, http 503, http 503, http 200], trace = []\<rparr> =
     (Inl (Error ''Max retries exceeded''),
      \<lparr>upstream = [http 200],
       trace = [Fetch ?u, Sleep 1000, Fetch ?u, Sleep 2000, Fetch ?u, Sleep 3000]\<rparr>)"
    using fetchWithRetry_policy [of scripted ?u
        "\<lparr>upstream = [http 503, http 503, http 503, http 200], trace = []\<rparr>"
        "http 503" "\<lparr>upstream = [http 503, http 503, http 200], trace = [Fetch ?u]\<rparr>"
        "http 503" "\<lparr>upstream = [http 503, http 200], trace = [Fetch ?u, Sleep 1000, Fetch ?u]\<rparr>"
        "http 503" "\<lparr>upstream = [http 200], trace = [Fetch ?u, Sleep 1000, Fetch ?u, Sleep 2000, Fetch ?u]\<rparr>"]
    by (simp add: do_fetch_def do_sleep_def scripted_def http_def policy_retry_def policy_verdict_def)
  have c: "fetchWithRetry scripted ?u \<lparr>upstream = [http 404, http 200, http 200], trace = []\<rparr> =
     (Inl (Error ''Compound not found in PubChem''),
      \<lparr>upstream = [http 200, http 200], trace = [Fetch ?u]\<rparr>)"
    using fetchWithRetry_policy [of scripted ?u
        "\<lparr>upstream = [http 404, http 200, http 200], trace = []\<rparr>"
        "http 404" "\<lparr>upstream = [http 200, http 200], trace = [Fetch ?u]\<rparr>"
        "http 200" "\<lparr>upstream = [http 200], trace = [Fetch ?u, Sleep 1000, Fetch ?u]\<rparr>"
        "http 200" "\<lparr>upstream = [], trace = [Fetch ?u, Sleep 1000, Fetch ?u, Sleep 2000, Fetch ?u]\<rparr>"]
    by (simp add: do_fetch_def do_sleep_def scripted_def http_def policy_retry_def policy_verdict_def)
  have d: "fetchWithRetry scripted ?u \<lparr>upstream = [http 500, http 200, http 200], trace = []\<rparr> =
     (Inl (Error ''HTTP 500: ''),
      \<lparr>upstream = [http 200, http 200], trace = [Fetch ?u]\<rparr>)"
    using fetchWithRetry_policy [of scripted ?u
        "\<lparr>upstream = [http 500, http 200, http 200], trace = []\<rparr>"
        "http 500" "\<lparr>upstream = [http 200, http 200], trace = [Fetch ?u]\<rparr>"
        "http 200" "\<lparr>upstream = [http 200], trace = [Fetch ?u, Sleep 1000, Fetch ?u]\<rparr>"
        "http 200" "\<lparr>upstream = [], trace = [Fetch ?u, Sleep 1000, Fetch ?u, Sleep 2000, Fetch ?u]\<rparr>"]
    by (simp add: do_fetch_def do_sleep_def scripted_def http_def policy_retry_def policy_verdict_def
        string_of_nat.simps digit_char_def)
  from a b c d show ?thesis by (simp only: simp_thms)
qed

subsection \<open>One lookup\<close>

lemma fetchWithRetry_trace:
  assumes "fetchWithRetry fetch url st = (res, st')"
  shows "\<exists>evs. trace st' = trace st @ Fetch url # evs \<and> (\<forall>u. Fetch u \<in> set evs \<longrightarrow> u = url)"
proof -
  obtain o1 s1 where f1: "do_fetch fetch url st = (o1, s1)" by (cases "do_fetch fetch url st")
  obtain o2 s2 where f2: "do_fetch fetch url (do_sleep 1000 s1) = (o2, s2)"
    by (cases "do_fetch fetch url (do_sleep 1000 s1)")
  obtain o3 s3 where f3: "do_fetch fetch url (do_sleep 2000 s2) = (o3, s3)"
    by (cases "do_fetch fetch url (do_sleep 2000 s2)")
  have t1: "trace s1 = trace st @ [Fetch url]" by (rule do_fetch_trace [OF f1])
  have t2: "trace s2 = trace st @ [Fetch url, Sleep 1000, Fetch url]"
    using do_fetch_trace [OF f2] t1 by (simp add: do_sleep_trace)
  have t3: "trace s3 = trace st @ [Fetch url, Sleep 1000, Fetch url, Sleep 2000, Fetch url]"
    using do_fetch_trace [OF f3] t2 by (simp add: do_sleep_trace)
  from fetchWithRetry_unroll [OF f1 f2 f3] assms
  have "st' = s1 \<or> st' = s2 \<or> st' = s3 \<or> st' = do_sleep 3000 s3"
    by (auto split: if_splits)
  then show ?thesis
    using t1 t2 t3 by (auto simp: do_sleep_trace)
qed

text \<open>
  C5. When the search answer has no numeric ID, the lookup fails with
  \<^verbatim>\<open>No compound found for this CAS number\<close>; when it has one and the properties answer
  has no property record, the lookup fails with \<^verbatim>\<open>Could not retrieve compound properties\<close>.
\<close>

theorem lookup_failure_messages:
  "(fetchWithRetry fetch (searchUrl casNumber) st = (Inr r1, st1) \<and> json r1 = Inr b1 \<and>
    first_cid (as_search_data b1) = None \<longrightarrow>
      getCompoundByCas fetch casNumber st =
        (\<lparr>data = None, error = Some ''No compound found for this CAS number''\<rparr>, st1)) \<and>
   (fetchWithRetry fetch (searchUrl casNumber) st = (Inr r1, st1) \<and> json r1 = Inr b1 \<and>
    first_cid (as_search_data b1) = Some cid \<and> cid \<noteq> 0 \<and>
    fetchWithRetry fetch (propsUrl cid) st1 = (Inr r2, st2) \<and> json r2 = Inr b2 \<and>
    first_props (as_props_data b2) = None \<longrightarrow>
      getCompoundByCas fetch casNumber st =
        (\<lparr>data = None, error = Some ''Could not retrieve compound properties''\<rparr>, st2))"
  by (simp add: getCompoundByCas_def getCompoundByCas_try_def truthy_num_def Let_def)

lemmas scripted_eval =
  fetchWithRetry_def fetchWithRetry_from.simps do_fetch_def do_sleep_def scripted_def
  http_def http_json_def cids_json_def props_json_def ok_def

lemma fetch_ok_scripted:
  "fetchWithRetry scripted url \<lparr>upstream = http_json b # rest, trace = tr\<rparr> =
     (Inr \<lparr>status = 200, statusText = ''OK'', json = Inr b\<rparr>,
      \<lparr>upstream = rest, trace = tr @ [Fetch url]\<rparr>)"
  by (simp add: scripted_eval)

text \<open>C5 on an empty ID list, and on an ID followed by an empty property table.\<close>

theorem lookup_failure_messages_witness:
  "getCompoundByCas scripted ''0000-00-0'' \<lparr>upstream = [cids_json []], trace = []\<rparr> =
     (\<lparr>data = None, error = Some ''No compound found for this CAS number''\<rparr>,
      \<lparr>upstream = [], trace = [Fetch (searchUrl ''0000-00-0'')]\<rparr>) \<and>
   getCompoundByCas scripted ''50-00-0'' \<lparr>upstream = [cids_json [712], props_json []], trace = []\<rparr> =
     (\<lparr>data = None, error = Some ''Could not retrieve compound properties''\<rparr>,
      \<lparr>upstream = [], trace = [Fetch (searchUrl ''50-00-0''), Fetch (propsUrl 712)]\<rparr>)"
proof -
  let ?none = "SearchPayload \<lparr>IdentifierList = Some \<lparr>CID = Some []\<rparr>\<rparr>"
  let ?one = "SearchPayload \<lparr>IdentifierList = Some \<lparr>CID = Some [712]\<rparr>\<rparr>"
  let ?empty = "PropsPayload \<lparr>PropertyTable = Some \<lparr>Properties = Some []\<rparr>\<rparr>"
  have a: "getCompoundByCas scripted ''0000-00-0'' \<lparr>upstream = [cids_json []], trace = []\<rparr> =
     (\<lparr>data = None, error = Some ''No compound found for this CAS number''\<rparr>,
      \<lparr>upstream = [], trace = [Fetch (searchUrl ''0000-00-0'')]\<rparr>)"
    using lookup_failure_messages [of scripted "''0000-00-0''"
        "\<lparr>upstream = [cids_json []], trace = []\<rparr>"
        "\<lparr>status = 200, statusText = ''OK'', json = Inr ?none\<rparr>"
        "\<lparr>upstream = [], trace = [Fetch (searchUrl ''0000-00-0'')]\<rparr>" ?none]
    by (simp add: cids_json_def fetch_ok_scripted first_cid_def first_of_def)
  have b: "getCompoundByCas scripted ''50-00-0''
       \<lparr>upstream = [cids_json [712], props_json []], trace = []\<rparr> =
     (\<lparr>data = None, error = Some ''Could not retrieve compound properties''\<rparr>,
      \<lparr>upstream = [], trace = [Fetch (searchUrl ''50-00-0''), Fetch (propsUrl 712)]\<rparr>)"
    using lookup_failure_messages [of scripted "''50-00-0''"
        "\<lparr>upstream = [cids_json [712], props_json []], trace = []\<rparr>"
        "\<lparr>status = 200, statusText = ''OK'', json = Inr ?one\<rparr>"
        "\<lparr>upstream = [props_json []], trace = [Fetch (searchUrl ''50-00-0'')]\<rparr>" ?one 712
        "\<lparr>status = 200, statusText = ''OK'', json = Inr ?empty\<rparr>"
        "\<lparr>upstream = [], trace = [Fetch (searchUrl ''50-00-0''), Fetch (propsUrl 712)]\<rparr>" ?empty]
    by (simp add: cids_json_def props_json_def fetch_ok_scripted first_cid_def first_of_def
        first_props_def)
  from a b show ?thesis by (simp only: simp_thms)
qed

lemma number_to_string_decimal:
  "\<bar>cid\<bar> \<le> 2 ^ 53 \<Longrightarrow> number_to_string cid = decimal cid"
proof -
  assume "\<bar>cid\<bar> \<le> 2 ^ 53"
  then have "nat \<bar>cid\<bar> \<le> 2 ^ 53" by simp
  moreover have "cid < 0 \<Longrightarrow> nat \<bar>cid\<bar> = nat (- cid)" by simp
  moreover have "\<not> cid < 0 \<Longrightarrow> nat \<bar>cid\<bar> = nat cid" by simp
  ultimately show ?thesis
    by (simp add: number_to_string_def decimal_def Let_def)
qed

lemma number_to_string_712: "number_to_string 712 = ''712''"
  by (simp add: number_to_string_def Let_def string_of_nat.simps digit_char_def)

text \<open>From \<open>10 ^ 21\<close> on the text of a number has an exponent.\<close>

lemma number_to_string_1e21: "number_to_string 1000000000000000000000 = ''1e+21''"
  by (simp add: number_to_string_def number_digits_def round53_def bit_length.simps
      shortest.simps string_of_nat.simps digit_char_def Let_def)

text \<open>
  C7. A successful lookup has as name the first available of Title and IUPACName, as
  structure notation the first available of CanonicalSMILES and ConnectivitySMILES, each
  else empty; as formula MolecularFormula, else empty; and as image reference the fixed
  template around the numeric ID as JavaScript prints it, which for an ID up to \<open>2 ^ 53\<close>
  is the ID in decimal.
\<close>

theorem success_record_fields:
  assumes "fetchWithRetry fetch (searchUrl casNumber) st = (Inr r1, st1)"
    and "json r1 = Inr b1"
    and "first_cid (as_search_data b1) = Some cid" and "cid \<noteq> 0"
    and "fetchWithRetry fetch (propsUrl cid) st1 = (Inr r2, st2)"
    and "json r2 = Inr b2"
    and "first_props (as_props_data b2) = Some props"
  shows \<open>getCompoundByCas fetch casNumber st =
     (\<lparr>data = Some
         \<lparr>chemical_name = first_available [Title props, IUPACName props],
          smiles_code = first_available [CanonicalSMILES props, ConnectivitySMILES props],
          molecular_formula = (case MolecularFormula props of None \<Rightarrow> [] | Some f \<Rightarrow> f),
          structure_image_url =
            ''=IMAGE("https://pubchem.ncbi.nlm.nih.gov/rest/pug/compound/cid/'' @
            number_to_string cid @ ''/PNG")''\<rparr>,
       error = None\<rparr>, st2) \<and>
     (\<bar>cid\<bar> \<le> 2 ^ 53 \<longrightarrow> number_to_string cid = decimal cid)\<close>
proof -
  have n: "or_literal (or_else a b) [] = first_available [a, b]" for a b
    by (cases a; cases b) (auto simp: or_literal_def or_else_def truthy_str_def)
  have f: "or_literal (MolecularFormula props) [] =
      (case MolecularFormula props of None \<Rightarrow> [] | Some f \<Rightarrow> f)"
    by (cases "MolecularFormula props") (auto simp: or_literal_def truthy_str_def)
  have b: \<open>build_data cid props =
         \<lparr>chemical_name = first_available [Title props, IUPACName props],
          smiles_code = first_available [CanonicalSMILES props, ConnectivitySMILES props],
          molecular_formula = (case MolecularFormula props of None \<Rightarrow> [] | Some f \<Rightarrow> f),
          structure_image_url =
            ''=IMAGE("https://pubchem.ncbi.nlm.nih.gov/rest/pug/compound/cid/'' @
            number_to_string cid @ ''/PNG")''\<rparr>\<close>
    unfolding build_data_def n f structureImageUrl_def by simp
  have \<open>getCompoundByCas fetch casNumber st =
     (\<lparr>data = Some
         \<lparr>chemical_name = first_available [Title props, IUPACName props],
          smiles_code = first_available [CanonicalSMILES props, ConnectivitySMILES props],
          molecular_formula = (case MolecularFormula props of None \<Rightarrow> [] | Some f \<Rightarrow> f),
          structure_image_url =
            ''=IMAGE("https://pubchem.ncbi.nlm.nih.gov/rest/pug/compound/cid/'' @
            number_to_string cid @ ''/PNG")''\<rparr>,
       error = None\<rparr>, st2)\<close>
    using assms
    by (simp add: getCompoundByCas_def getCompoundByCas_try_def truthy_num_def Let_def b)
  then show ?thesis using number_to_string_decimal [of cid] by blast
qed

lemma getCompoundByCas_after_search:
  assumes "fetchWithRetry fetch (searchUrl casNumber) st = (Inr r1, st1)"
    and "json r1 = Inr b1"
    and "first_cid (as_search_data b1) = Some cid" and "cid \<noteq> 0"
    and "fetchWithRetry fetch (propsUrl cid) st1 = (res2, st2)"
  shows "snd (getCompoundByCas fetch casNumber st) = st2"
    and "data (fst (getCompoundByCas fetch casNumber st)) = Some d \<Longrightarrow>
         structure_image_url d = structureImageUrl cid"
  using assms
  by (auto simp: getCompoundByCas_def getCompoundByCas_try_def truthy_num_def Let_def
      build_data_def split: sum.splits option.splits)

text \<open>
  C10. When the search answer lists several IDs, a first ID of 0 makes the lookup fail
  with \<^verbatim>\<open>No compound found for this CAS number\<close>, with no further request; any other
  first ID is the one in the URL of every properties request and in the image reference.
\<close>

theorem first_cid_only:
  assumes "fetchWithRetry fetch (searchUrl casNumber) st = (Inr r1, st1)"
    and "json r1 = Inr (SearchPayload \<lparr>IdentifierList = Some \<lparr>CID = Some (cid # others)\<rparr>\<rparr>)"
  shows \<open>(cid = 0 \<longrightarrow>
            getCompoundByCas fetch casNumber st =
              (\<lparr>data = None, error = Some ''No compound found for this CAS number''\<rparr>, st1)) \<and>
         (cid \<noteq> 0 \<longrightarrow>
            (\<exists>evs. trace (snd (getCompoundByCas fetch casNumber st)) =
                     trace st1 @
                     Fetch (''https://pubchem.ncbi.nlm.nih.gov/rest/pug/compound/cid/'' @
                            number_to_string cid @
                            ''/property/IUPACName,Title,MolecularFormula,CanonicalSMILES/JSON'') #
                     evs \<and>
                   (\<forall>u. Fetch u \<in> set evs \<longrightarrow>
                      u = ''https://pubchem.ncbi.nlm.nih.gov/rest/pug/compound/cid/'' @
                          number_to_string cid @
                          ''/property/IUPACName,Title,MolecularFormula,CanonicalSMILES/JSON'')) \<and>
            (\<forall>d. data (fst (getCompoundByCas fetch casNumber st)) = Some d \<longrightarrow>
                 structure_image_url d =
                   ''=IMAGE("https://pubchem.ncbi.nlm.nih.gov/rest/pug/compound/cid/'' @
                   number_to_string cid @ ''/PNG")''))\<close>
proof (intro conjI impI)
  assume "cid = 0"
  then show "getCompoundByCas fetch casNumber st =
      (\<lparr>data = None, error = Some ''No compound found for this CAS number''\<rparr>, st1)"
    using assms
    by (simp add: getCompoundByCas_def getCompoundByCas_try_def truthy_num_def Let_def
        first_cid_def first_of_def)
next
  assume nz: "cid \<noteq> 0"
  have url: "propsUrl cid =
      ''https://pubchem.ncbi.nlm.nih.gov/rest/pug/compound/cid/'' @ number_to_string cid @
      ''/property/IUPACName,Title,MolecularFormula,CanonicalSMILES/JSON''"
    by (simp add: propsUrl_def PUBCHEM_BASE_URL_def)
  have fc: "first_cid (as_search_data (SearchPayload \<lparr>IdentifierList = Some \<lparr>CID = Some (cid # others)\<rparr>\<rparr>)) =
      Some cid"
    by (simp add: first_cid_def first_of_def)
  obtain res2 st2 where f2: "fetchWithRetry fetch (propsUrl cid) st1 = (res2, st2)"
    by (cases "fetchWithRetry fetch (propsUrl cid) st1")
  note after = getCompoundByCas_after_search [OF assms(1,2) fc nz f2]
  from fetchWithRetry_trace [OF f2] after(1)
  have "\<exists>evs. trace (snd (getCompoundByCas fetch casNumber st)) =
                     trace st1 @ Fetch (propsUrl cid) # evs \<and>
                   (\<forall>u. Fetch u \<in> set evs \<longrightarrow> u = propsUrl cid)"
    by simp
  then show "\<exists>evs. trace (snd (getCompoundByCas fetch casNumber st)) =
                     trace st1 @
                     Fetch (''https://pubchem.ncbi.nlm.nih.gov/rest/pug/compound/cid/'' @
                            number_to_string cid @
                            ''/property/IUPACName,Title,MolecularFormula,CanonicalSMILES/JSON'') #
                     evs \<and>
                   (\<forall>u. Fetch u \<in> set evs \<longrightarrow>
                      u = ''https://pubchem.ncbi.nlm.nih.gov/rest/pug/compound/cid/'' @
                          number_to_string cid @
                          ''/property/IUPACName,Title,MolecularFormula,CanonicalSMILES/JSON'')"
    unfolding url .
  show \<open>\<forall>d. data (fst (getCompoundByCas fetch casNumber st)) = Some d \<longrightarrow>
                 structure_image_url d =
                   ''=IMAGE("https://pubchem.ncbi.nlm.nih.gov/rest/pug/compound/cid/'' @
                   number_to_string cid @ ''/PNG")''\<close>
    using after(2) by (simp add: structureImageUrl_def)
qed

lemma getCompoundByCas_scripted_ok:
  "getCompoundByCas scripted casNumber
     \<lparr>upstream = [cids_json (cid # others), props_json (props # ps)], trace = []\<rparr> =
   (if cid = 0 then
      (\<lparr>data = None, error = Some ''No compound found for this CAS number''\<rparr>,
       \<lparr>upstream = [props_json (props # ps)], trace = [Fetch (searchUrl casNumber)]\<rparr>)
    else
      (\<lparr>data = Some (build_data cid props), error = None\<rparr>,
       \<lparr>upstream = [], trace = [Fetch (searchUrl casNumber), Fetch (propsUrl cid)]\<rparr>))"
  by (simp add: getCompoundByCas_def getCompoundByCas_try_def truthy_num_def Let_def
      cids_json_def props_json_def fetch_ok_scripted first_cid_def first_of_def first_props_def)

lemma searchUrl_formaldehyde:
  "searchUrl ''50-00-0'' = ''https://pubchem.ncbi.nlm.nih.gov/rest/pug/compound/name/50-00-0/cids/JSON''"
  by (simp add: searchUrl_def PUBCHEM_BASE_URL_def encodeURIComponent_def uri_unreserved_def)

text \<open>
  C7 on a record where each fallback is taken, for the ID 712 and for the ID
  \<open>10 ^ 21\<close>, which JavaScript prints as \<^verbatim>\<open>1e+21\<close>.
\<close>

theorem success_record_fields_witness:
  \<open>getCompoundByCas scripted ''50-00-0''
     \<lparr>upstream = [cids_json [712], props_json [formaldehyde]], trace = []\<rparr> =
   (\<lparr>data = Some
       \<lparr>chemical_name = ''formaldehyde'', smiles_code = ''C=O'', molecular_formula = [],
        structure_image_url =
          ''=IMAGE("https://pubchem.ncbi.nlm.nih.gov/rest/pug/compound/cid/712/PNG")''\<rparr>,
     error = None\<rparr>,
    \<lparr>upstream = [], trace = [Fetch (searchUrl ''50-00-0''), Fetch (propsUrl 712)]\<rparr>) \<and>
   number_to_string 712 = decimal 712 \<and> decimal 712 = ''712'' \<and>
   getCompoundByCas scripted ''50-00-0''
     \<lparr>upstream = [cids_json [1000000000000000000000], props_json [formaldehyde]], trace = []\<rparr> =
   (\<lparr>data = Some
       \<lparr>chemical_name = ''formaldehyde'', smiles_code = ''C=O'', molecular_formula = [],
        structure_image_url =
          ''=IMAGE("https://pubchem.ncbi.nlm.nih.gov/rest/pug/compound/cid/1e+21/PNG")''\<rparr>,
     error = None\<rparr>,
    \<lparr>upstream = [],
     trace = [Fetch (searchUrl ''50-00-0''), Fetch (propsUrl 1000000000000000000000)]\<rparr>)\<close>
proof -
  note small = success_record_fields [of scripted "''50-00-0''"
      "\<lparr>upstream = [cids_json [712], props_json [formaldehyde]], trace = []\<rparr>"
      "\<lparr>status = 200, statusText = ''OK'',
        json = Inr (SearchPayload \<lparr>IdentifierList = Some \<lparr>CID = Some [712]\<rparr>\<rparr>)\<rparr>"
      "\<lparr>upstream = [props_json [formaldehyde]], trace = [Fetch (searchUrl ''50-00-0'')]\<rparr>"
      "SearchPayload \<lparr>IdentifierList = Some \<lparr>CID = Some [712]\<rparr>\<rparr>" 712
      "\<lparr>status = 200, statusText = ''OK'',
        json = Inr (PropsPayload \<lparr>PropertyTable = Some \<lparr>Properties = Some [formaldehyde]\<rparr>\<rparr>)\<rparr>"
      "\<lparr>upstream = [], trace = [Fetch (searchUrl ''50-00-0''), Fetch (propsUrl 712)]\<rparr>"
      "PropsPayload \<lparr>PropertyTable = Some \<lparr>Properties = Some [formaldehyde]\<rparr>\<rparr>"
      formaldehyde]
  note large = success_record_fields [of scripted "''50-00-0''"
      "\<lparr>upstream = [cids_json [1000000000000000000000], props_json [formaldehyde]], trace = []\<rparr>"
      "\<lparr>status = 200, statusText = ''OK'',
        json = Inr (SearchPayload \<lparr>IdentifierList = Some \<lparr>CID = Some [1000000000000000000000]\<rparr>\<rparr>)\<rparr>"
      "\<lparr>upstream = [props_json [formaldehyde]], trace = [Fetch (searchUrl ''50-00-0'')]\<rparr>"
      "SearchPayload \<lparr>IdentifierList = Some \<lparr>CID = Some [1000000000000000000000]\<rparr>\<rparr>"
      1000000000000000000000
      "\<lparr>status = 200, statusText = ''OK'',
        json = Inr (PropsPayload \<lparr>PropertyTable = Some \<lparr>Properties = Some [formaldehyde]\<rparr>\<rparr>)\<rparr>"
      "\<lparr>upstream = [],
        trace = [Fetch (searchUrl ''50-00-0''), Fetch (propsUrl 1000000000000000000000)]\<rparr>"
      "PropsPayload \<lparr>PropertyTable = Some \<lparr>Properties = Some [formaldehyde]\<rparr>\<rparr>"
      formaldehyde]
  have a: \<open>getCompoundByCas scripted ''50-00-0''
     \<lparr>upstream = [cids_json [712], props_json [formaldehyde]], trace = []\<rparr> =
   (\<lparr>data = Some
       \<lparr>chemical_name = ''formaldehyde'', smiles_code = ''C=O'', molecular_formula = [],
        structure_image_url =
          ''=IMAGE("https://pubchem.ncbi.nlm.nih.gov/rest/pug/compound/cid/712/PNG")''\<rparr>,
     error = None\<rparr>,
    \<lparr>upstream = [], trace = [Fetch (searchUrl ''50-00-0''), Fetch (propsUrl 712)]\<rparr>)\<close>
    using small
    by (simp add: cids_json_def props_json_def fetch_ok_scripted first_cid_def first_of_def
        first_props_def number_to_string_712 formaldehyde_def)
  have b: "number_to_string 712 = decimal 712"
    using small
    by (simp add: cids_json_def props_json_def fetch_ok_scripted first_cid_def first_of_def
        first_props_def)
  have c: "decimal 712 = ''712''"
    by (simp add: decimal_def string_of_nat.simps digit_char_def)
  have d: \<open>getCompoundByCas scripted ''50-00-0''
     \<lparr>upstream = [cids_json [1000000000000000000000], props_json [formaldehyde]], trace = []\<rparr> =
   (\<lparr>data = Some
       \<lparr>chemical_name = ''formaldehyde'', smiles_code = ''C=O'', molecular_formula = [],
        structure_image_url =
          ''=IMAGE("https://pubchem.ncbi.nlm.nih.gov/rest/pug/compound/cid/1e+21/PNG")''\<rparr>,
     error = None\<rparr>,
    \<lparr>upstream = [],
     trace = [Fetch (searchUrl ''50-00-0''), Fetch (propsUrl 1000000000000000000000)]\<rparr>)\<close>
    using large
    by (simp add: cids_json_def props_json_def fetch_ok_scripted first_cid_def first_of_def
        first_props_def number_to_string_1e21 formaldehyde_def)
  from a b c d show ?thesis by (simp only: simp_thms)
qed

text \<open>C10 on the ID lists 712, 999, 5 and 0, 712.\<close>

theorem first_cid_only_witness:
  \<open>(\<exists>evs. trace (snd (getCompoundByCas scripted ''50-00-0''
               \<lparr>upstream = [cids_json [712, 999, 5], props_json [formaldehyde]], trace = []\<rparr>)) =
           [Fetch ''https://pubchem.ncbi.nlm.nih.gov/rest/pug/compound/name/50-00-0/cids/JSON'',
            Fetch ''https://pubchem.ncbi.nlm.nih.gov/rest/pug/compound/cid/712/property/IUPACName,Title,MolecularFormula,CanonicalSMILES/JSON''] @
           evs \<and>
           (\<forall>u. Fetch u \<in> set evs \<longrightarrow>
              u = ''https://pubchem.ncbi.nlm.nih.gov/rest/pug/compound/cid/712/property/IUPACName,Title,MolecularFormula,CanonicalSMILES/JSON'')) \<and>
    data (fst (getCompoundByCas scripted ''50-00-0''
               \<lparr>upstream = [cids_json [712, 999, 5], props_json [formaldehyde]], trace = []\<rparr>)) =
      Some (build_data 712 formaldehyde) \<and>
    structure_image_url (build_data 712 formaldehyde) =
      ''=IMAGE("https://pubchem.ncbi.nlm.nih.gov/rest/pug/compound/cid/712/PNG")'' \<and>
    getCompoundByCas scripted ''50-00-0''
       \<lparr>upstream = [cids_json [0, 712], props_json [formaldehyde]], trace = []\<rparr> =
      (\<lparr>data = None, error = Some ''No compound found for this CAS number''\<rparr>,
       \<lparr>upstream = [props_json [formaldehyde]], trace = [Fetch (searchUrl ''50-00-0'')]\<rparr>)\<close>
proof -
  let ?many = "\<lparr>upstream = [cids_json [712, 999, 5], props_json [formaldehyde]], trace = []\<rparr>"
  let ?zero = "\<lparr>upstream = [cids_json [0, 712], props_json [formaldehyde]], trace = []\<rparr>"
  let ?mid = "\<lparr>upstream = [props_json [formaldehyde]], trace = [Fetch (searchUrl ''50-00-0'')]\<rparr>"
  let ?url = "''https://pubchem.ncbi.nlm.nih.gov/rest/pug/compound/cid/712/property/IUPACName,Title,MolecularFormula,CanonicalSMILES/JSON''"
  have run: "data (fst (getCompoundByCas scripted ''50-00-0'' ?many)) = Some (build_data 712 formaldehyde)"
    by (simp add: getCompoundByCas_scripted_ok)
  have a: \<open>(\<exists>evs. trace (snd (getCompoundByCas scripted ''50-00-0'' ?many)) =
              trace ?mid @ Fetch ?url # evs \<and> (\<forall>u. Fetch u \<in> set evs \<longrightarrow> u = ?url)) \<and>
           (\<forall>d. data (fst (getCompoundByCas scripted ''50-00-0'' ?many)) = Some d \<longrightarrow>
              structure_image_url d =
                ''=IMAGE("https://pubchem.ncbi.nlm.nih.gov/rest/pug/compound/cid/712/PNG")'')\<close>
    using first_cid_only [of scripted "''50-00-0''" ?many
        "\<lparr>status = 200, statusText = ''OK'',
          json = Inr (SearchPayload \<lparr>IdentifierList = Some \<lparr>CID = Some [712, 999, 5]\<rparr>\<rparr>)\<rparr>"
        ?mid 712 "[999, 5]"]
    by (simp add: cids_json_def fetch_ok_scripted number_to_string_712)
  have b: "getCompoundByCas scripted ''50-00-0'' ?zero =
      (\<lparr>data = None, error = Some ''No compound found for this CAS number''\<rparr>, ?mid)"
    using first_cid_only [of scripted "''50-00-0''" ?zero
        "\<lparr>status = 200, statusText = ''OK'',
          json = Inr (SearchPayload \<lparr>IdentifierList = Some \<lparr>CID = Some [0, 712]\<rparr>\<rparr>)\<rparr>"
        ?mid 0 "[712]"]
    by (simp add: cids_json_def fetch_ok_scripted)
  from a run have img: \<open>structure_image_url (build_data 712 formaldehyde) =
      ''=IMAGE("https://pubchem.ncbi.nlm.nih.gov/rest/pug/compound/cid/712/PNG")''\<close>
    by simp
  from a obtain evs where evs: "trace (snd (getCompoundByCas scripted ''50-00-0'' ?many)) =
      trace ?mid @ Fetch ?url # evs" "\<forall>u. Fetch u \<in> set evs \<longrightarrow> u = ?url"
    by blast
  have "trace (snd (getCompoundByCas scripted ''50-00-0'' ?many)) =
      [Fetch ''https://pubchem.ncbi.nlm.nih.gov/rest/pug/compound/name/50-00-0/cids/JSON'',
       Fetch ?url] @ evs"
    using evs(1) by (simp add: searchUrl_formaldehyde)
  with evs(2) have tr: "\<exists>evs. trace (snd (getCompoundByCas scripted ''50-00-0'' ?many)) =
      [Fetch ''https://pubchem.ncbi.nlm.nih.gov/rest/pug/compound/name/50-00-0/cids/JSON'',
       Fetch ?url] @ evs \<and> (\<forall>u. Fetch u \<in> set evs \<longrightarrow> u = ?url)"
    by blast
  from tr run img b show ?thesis by (simp only: simp_thms)
qed

subsection \<open>The input reader\<close>

lemma casNumber_of_first_nonempty:
  "first_nonempty r = (if truthy_str (casNumber_of r) then casNumber_of r else None)"
  by (cases "r ''cas_number''"; cases "r ''CAS''"; cases "r ''cas''"; cases "r ''CAS Number''")
    (simp_all add: first_nonempty_def recognized_columns_def List.map_filter_simps
      casNumber_of_def or_else_def truthy_str_def)

lemma readCasNumbers_loop_eq:
  "readCasNumbers_loop acc records = acc @ map trim (List.map_filter first_nonempty records)"
proof (induction records arbitrary: acc)
  case Nil
  then show ?case by (simp add: List.map_filter_simps)
next
  case (Cons r records)
  show ?case
  proof (cases "truthy_str (casNumber_of r)")
    case True
    then obtain v where v: "casNumber_of r = Some v" by (auto simp: truthy_str_def split: option.splits)
    with True have "first_nonempty r = Some v" by (simp add: casNumber_of_first_nonempty)
    with True v Cons.IH show ?thesis by (simp add: List.map_filter_simps Let_def)
  next
    case False
    then have "first_nonempty r = None" by (simp add: casNumber_of_first_nonempty)
    with False Cons.IH show ?thesis by (simp add: List.map_filter_simps Let_def)
  qed
qed

lemma first_nonempty_None:
  "first_nonempty r = None \<longleftrightarrow> (\<forall>c \<in> set recognized_columns. r c = None \<or> r c = Some [])"
  by (cases "r ''cas_number''"; cases "r ''CAS''"; cases "r ''cas''"; cases "r ''CAS Number''")
    (simp_all add: first_nonempty_def recognized_columns_def)

text \<open>
  What the reader returns: record by record, the first value among the recognised
  columns, in their order, that is not empty as the parser delivers it, trimmed after
  that test. A record is passed over exactly when each recognised column is missing or
  delivered empty.
\<close>

lemma reader_first_nonempty:
  "readCasNumbersFromCsv records = map trim (List.map_filter first_nonempty records)"
  by (simp add: readCasNumbersFromCsv_def readCasNumbers_loop_eq)

lemmas trim_eval = trim_def strip_all.simps js_whitespace_def

lemma trim_cas: "trim ''50-00-0'' = ''50-00-0''" "trim ''64-17-5'' = ''64-17-5''"
  "trim ''0000-00-0'' = ''0000-00-0''"
  by (simp_all add: trim_eval)

lemma trim_blank:
  "trim '' '' = []" "trim [CHR 0xC2, CHR 0xA0] = []" "trim ''  50-00-0 '' = ''50-00-0''"
  by (simp_all add: trim_eval)

lemma reader_priority:
  "readCasNumbersFromCsv
     [[''CAS Number'' \<mapsto> ''50-00-0''],
      [''CAS Number'' \<mapsto> []],
      [''cas_number'' \<mapsto> [], ''CAS'' \<mapsto> ''64-17-5'', ''cas'' \<mapsto> ''7732-18-5''],
      [''name'' \<mapsto> ''water'']] = [''50-00-0'', ''64-17-5'']"
  by (simp add: reader_first_nonempty first_nonempty_def recognized_columns_def trim_cas)

text \<open>
  C6, where the code departs from it. The code tests a value for emptiness before it
  trims it. A value of one space, which the parser delivers when the field is quoted,
  passes the test and is trimmed to the empty identifier: the record is not skipped, and
  a later recognised column that holds an identifier is not looked at. The same holds for
  a value of one no-break space (U+00A0).
\<close>

theorem reader_keeps_blank_value:
  "readCasNumbersFromCsv [[''cas_number'' \<mapsto> '' '']] = [[]] \<and>
   readCasNumbersFromCsv [[''cas_number'' \<mapsto> '' '', ''CAS'' \<mapsto> ''50-00-0'']] = [[]] \<and>
   readCasNumbersFromCsv [[''cas_number'' \<mapsto> [CHR 0xC2, CHR 0xA0]]] = [[]] \<and>
   readCasNumbersFromCsv [[''cas_number'' \<mapsto> []]] = []"
  by (simp add: reader_first_nonempty first_nonempty_def recognized_columns_def trim_blank)

subsection \<open>The worker pool\<close>

lemma spawn_closed:
  "currentIndex s + k \<le> n \<Longrightarrow>
   spawn n k s =
     s\<lparr>currentIndex := currentIndex s + k,
       workers := workers s @ map Awaiting [currentIndex s..<currentIndex s + k],
       calls := calls s @ [currentIndex s..<currentIndex s + k]\<rparr>"
proof (induction k arbitrary: s)
  case 0
  then show ?case by simp
next
  case (Suc k)
  have lt: "currentIndex s < n" using Suc.prems by simp
  let ?s1 = "s\<lparr>currentIndex := currentIndex s + 1, calls := calls s @ [currentIndex s],
               workers := workers s @ [Awaiting (currentIndex s)]\<rparr>"
  have step: "spawn n (Suc k) s = spawn n k ?s1"
    using lt by (simp add: claim_def)
  have "currentIndex ?s1 + k \<le> n" using Suc.prems by simp
  from Suc.IH [OF this] show ?case
    unfolding step by (simp add: upt_conv_Cons)
qed

lemma start_closed:
  assumes "0 \<le> C"
  shows "(start items C :: exn + 'r pool) =
    Inr \<lparr>currentIndex = nat (min C (int (length items))),
         results = replicate (length items) None,
         workers = map Awaiting [0..<nat (min C (int (length items)))],
         rejection = None,
         calls = [0..<nat (min C (int (length items)))]\<rparr>"
proof -
  let ?n = "length items"
  let ?m = "nat (min C (int ?n))"
  let ?s = "\<lparr>currentIndex = 0, results = replicate ?n (None :: 'r option), workers = [],
             rejection = None, calls = []\<rparr>"
  have "currentIndex ?s + ?m \<le> ?n" by simp
  from spawn_closed [OF this] have "spawn ?n ?m ?s =
     \<lparr>currentIndex = ?m, results = replicate ?n None, workers = map Awaiting [0..<?m],
      rejection = None, calls = [0..<?m]\<rparr>"
    by simp
  moreover have "\<not> min C (int ?n) < 0" using assms by simp
  ultimately show ?thesis by (simp add: start_def Let_def)
qed

lemma pool_inv_start:
  assumes "0 \<le> C" and "start items C = Inr s"
  shows "pool_inv (length items) (nat (min C (int (length items)))) f s \<and> settled s = 0"
proof -
  have "Inr s = start items C" using assms(2) by simp
  also note start_closed [OF assms(1)]
  finally have s: "s = \<lparr>currentIndex = nat (min C (int (length items))),
         results = replicate (length items) None,
         workers = map Awaiting [0..<nat (min C (int (length items)))],
         rejection = None,
         calls = [0..<nat (min C (int (length items)))]\<rparr>"
    by (simp only: sum.inject)
  show ?thesis unfolding s pool_inv_def settled_def by (auto intro!: leI)
qed

lemma filter_update_count:
  "i < length xs \<Longrightarrow> \<not> P (xs ! i) \<Longrightarrow> P y \<Longrightarrow>
   length (filter P (xs[i := y])) = Suc (length (filter P xs))"
proof (induction xs arbitrary: i)
  case Nil
  then show ?case by simp
next
  case (Cons x xs)
  then show ?case by (cases i) auto
qed

lemma settle_Some:
  assumes "settle items processor k s = Some s'"
  obtains i where "k < length (workers s)" and "workers s ! k = Awaiting i"
  using assms by (auto simp: settle_def split: if_splits wstate.splits)

lemma settle_inv:
  assumes inv: "pool_inv (length items) m f s"
    and proc: "\<And>i. i < length items \<Longrightarrow> processor (items ! i) i = Inr (f i)"
    and st: "settle items processor k s = Some s'"
  shows "pool_inv (length items) m f s' \<and> settled s' = Suc (settled s)"
proof -
  let ?n = "length items"
  let ?c = "currentIndex s"
  from st obtain i where k: "k < length (workers s)" and wk: "workers s ! k = Awaiting i"
    by (rule settle_Some)
  from inv have len: "length (results s) = ?n" "length (workers s) = m" "?c \<le> ?n"
    and calls: "calls s = [0..<?c]" and rej: "rejection s = None"
    and F: "\<And>k. k < m \<Longrightarrow> (case workers s ! k of
               Awaiting i \<Rightarrow> i < ?c \<and> results s ! i = None
             | Done \<Rightarrow> ?c = ?n
             | Thrown e \<Rightarrow> False)"
    and G: "\<And>k k' i. k < m \<Longrightarrow> k' < m \<Longrightarrow> workers s ! k = Awaiting i \<Longrightarrow>
               workers s ! k' = Awaiting i \<Longrightarrow> k = k'"
    and H1: "\<And>i. i < ?n \<Longrightarrow> results s ! i = None \<Longrightarrow>
               ?c \<le> i \<or> (\<exists>k<m. workers s ! k = Awaiting i)"
    and H2: "\<And>i v. i < ?n \<Longrightarrow> results s ! i = Some v \<Longrightarrow> v = f i \<and> i < ?c"
    unfolding pool_inv_def by auto
  have km: "k < m" using k len by simp
  from F [OF km] wk have ic: "i < ?c" and ri: "results s ! i = None" by auto
  have i_n: "i < ?n" using ic len by simp
  have pi: "processor (items ! i) i = Inr (f i)" by (rule proc [OF i_n])
  have other: "\<And>k' j. k' < m \<Longrightarrow> k' \<noteq> k \<Longrightarrow> workers s ! k' = Awaiting j \<Longrightarrow> j \<noteq> i"
    using G km wk by blast
  have fresh: "\<And>j. ?c \<le> j \<Longrightarrow> j < ?n \<Longrightarrow> results s ! j = None"
  proof -
    fix j assume "?c \<le> j" "j < ?n"
    then show "results s ! j = None" using H2 [of j] by (cases "results s ! j") auto
  qed
  have cnt: "length (filter (\<lambda>x. x \<noteq> None) ((results s)[i := Some (f i)])) = Suc (settled s)"
    unfolding settled_def using filter_update_count [of i "results s" "\<lambda>x. x \<noteq> None" "Some (f i)"] i_n len ri
    by simp
  show ?thesis
  proof (cases "?c < ?n")
    case True
    then have s': "s' = s\<lparr>results := (results s)[i := Some (f i)], currentIndex := ?c + 1,
                        calls := calls s @ [?c], workers := (workers s)[k := Awaiting ?c]\<rparr>"
      using st k wk pi by (simp add: settle_def claim_def)
    have nodone: "\<And>k'. k' < m \<Longrightarrow> \<exists>j. workers s ! k' = Awaiting j"
    proof -
      fix k' assume "k' < m"
      from F [OF this] True show "\<exists>j. workers s ! k' = Awaiting j"
        by (cases "workers s ! k'") auto
    qed
    have F': "\<forall>k'<m. case workers s' ! k' of
               Awaiting j \<Rightarrow> j < currentIndex s' \<and> results s' ! j = None
             | Done \<Rightarrow> currentIndex s' = ?n
             | Thrown e \<Rightarrow> False"
    proof (intro allI impI)
      fix k' assume k'm: "k' < m"
      show "case workers s' ! k' of
               Awaiting j \<Rightarrow> j < currentIndex s' \<and> results s' ! j = None
             | Done \<Rightarrow> currentIndex s' = ?n
             | Thrown e \<Rightarrow> False"
      proof (cases "k' = k")
        case True
        then show ?thesis using s' km len ic fresh [of ?c] \<open>?c < ?n\<close> by simp
      next
        case False
        from nodone [OF k'm] obtain j where j: "workers s ! k' = Awaiting j" by blast
        from F [OF k'm] j have "j < ?c" "results s ! j = None" by auto
        moreover have "j \<noteq> i" using other [OF k'm False j] .
        ultimately show ?thesis using s' False j by simp
      qed
    qed
    have G': "\<forall>k1<m. \<forall>k2<m. \<forall>j. workers s' ! k1 = Awaiting j \<and> workers s' ! k2 = Awaiting j \<longrightarrow> k1 = k2"
    proof (intro allI impI)
      fix k1 k2 j assume k1: "k1 < m" and k2: "k2 < m"
        and eq: "workers s' ! k1 = Awaiting j \<and> workers s' ! k2 = Awaiting j"
      have old: "\<And>k'. k' < m \<Longrightarrow> k' \<noteq> k \<Longrightarrow> workers s' ! k' = Awaiting j \<Longrightarrow>
                   workers s ! k' = Awaiting j \<and> j < ?c"
      proof -
        fix k' assume a: "k' < m" "k' \<noteq> k" "workers s' ! k' = Awaiting j"
        then have "workers s ! k' = Awaiting j" using s' by simp
        moreover from this F [OF a(1)] have "j < ?c" by simp
        ultimately show "workers s ! k' = Awaiting j \<and> j < ?c" ..
      qed
      have new: "workers s' ! k = Awaiting ?c" using s' km len by simp
      show "k1 = k2"
      proof (cases "k1 = k")
        case True
        then have "j = ?c" using eq new by simp
        then show ?thesis using old [OF k2] eq True by (cases "k2 = k") auto
      next
        case False
        from old [OF k1 False] eq have a: "workers s ! k1 = Awaiting j" "j < ?c" by auto
        show ?thesis
        proof (cases "k2 = k")
          case True
          then show ?thesis using eq new a by simp
        next
          case False
          from old [OF k2 False] eq have "workers s ! k2 = Awaiting j" by auto
          with a G k1 k2 show ?thesis by blast
        qed
      qed
    qed
    have H1': "\<forall>j<?n. results s' ! j = None \<longrightarrow>
                 currentIndex s' \<le> j \<or> (\<exists>k'<m. workers s' ! k' = Awaiting j)"
    proof (intro allI impI)
      fix j assume jn: "j < ?n" and none: "results s' ! j = None"
      have ji: "j \<noteq> i" using none s' i_n len by auto
      then have "results s ! j = None" using none s' by simp
      from H1 [OF jn this] show "currentIndex s' \<le> j \<or> (\<exists>k'<m. workers s' ! k' = Awaiting j)"
      proof
        assume "?c \<le> j"
        show ?thesis
        proof (cases "j = ?c")
          case True
          then have "workers s' ! k = Awaiting j" using s' km len by simp
          then show ?thesis using km by blast
        next
          case False
          then show ?thesis using \<open>?c \<le> j\<close> s' by simp
        qed
      next
        assume "\<exists>k'<m. workers s ! k' = Awaiting j"
        then obtain k' where k': "k' < m" "workers s ! k' = Awaiting j" by blast
        then have "k' \<noteq> k" using wk ji by auto
        then have "workers s' ! k' = Awaiting j" using s' k' by simp
        then show ?thesis using k' by blast
      qed
    qed
    have H2': "\<forall>j<?n. \<forall>v. results s' ! j = Some v \<longrightarrow> v = f j \<and> j < currentIndex s'"
    proof (intro allI impI)
      fix j v assume jn: "j < ?n" and some: "results s' ! j = Some v"
      show "v = f j \<and> j < currentIndex s'"
      proof (cases "j = i")
        case True
        then show ?thesis using some s' i_n len ic by simp
      next
        case False
        then have "results s ! j = Some v" using some s' by simp
        from H2 [OF jn this] show ?thesis using s' by simp
      qed
    qed
    have "pool_inv ?n m f s'"
      unfolding pool_inv_def using F' G' H1' H2'
      using s' len calls rej True by simp
    moreover have "settled s' = Suc (settled s)"
      using cnt s' by (simp add: settled_def)
    ultimately show ?thesis ..
  next
    case False
    then have cn: "?c = ?n" using len by simp
    have s': "s' = s\<lparr>results := (results s)[i := Some (f i)], workers := (workers s)[k := Done]\<rparr>"
      using st k wk pi False by (simp add: settle_def claim_def)
    have F': "\<forall>k'<m. case workers s' ! k' of
               Awaiting j \<Rightarrow> j < currentIndex s' \<and> results s' ! j = None
             | Done \<Rightarrow> currentIndex s' = ?n
             | Thrown e \<Rightarrow> False"
    proof (intro allI impI)
      fix k' assume k'm: "k' < m"
      show "case workers s' ! k' of
               Awaiting j \<Rightarrow> j < currentIndex s' \<and> results s' ! j = None
             | Done \<Rightarrow> currentIndex s' = ?n
             | Thrown e \<Rightarrow> False"
      proof (cases "k' = k")
        case True
        then show ?thesis using s' km len cn by simp
      next
        case False
        then have same: "workers s' ! k' = workers s ! k'" using s' by simp
        show ?thesis
        proof (cases "workers s ! k'")
          case (Awaiting j)
          from F [OF k'm] Awaiting have "j < ?c" "results s ! j = None" by auto
          moreover have "j \<noteq> i" using other [OF k'm False Awaiting] .
          ultimately show ?thesis using s' same Awaiting by simp
        next
          case Done
          then show ?thesis using s' same cn by simp
        next
          case (Thrown e)
          then show ?thesis using F [OF k'm] by simp
        qed
      qed
    qed
    have old: "\<And>k' j. k' < m \<Longrightarrow> workers s' ! k' = Awaiting j \<Longrightarrow>
                 k' \<noteq> k \<and> workers s ! k' = Awaiting j"
    proof -
      fix k' j assume "k' < m" "workers s' ! k' = Awaiting j"
      then show "k' \<noteq> k \<and> workers s ! k' = Awaiting j"
        using s' km len by (cases "k' = k") auto
    qed
    have G': "\<forall>k1<m. \<forall>k2<m. \<forall>j. workers s' ! k1 = Awaiting j \<and> workers s' ! k2 = Awaiting j \<longrightarrow> k1 = k2"
      using old G by blast
    have H1': "\<forall>j<?n. results s' ! j = None \<longrightarrow>
                 currentIndex s' \<le> j \<or> (\<exists>k'<m. workers s' ! k' = Awaiting j)"
    proof (intro allI impI)
      fix j assume jn: "j < ?n" and none: "results s' ! j = None"
      have ji: "j \<noteq> i" using none s' i_n len by auto
      then have "results s ! j = None" using none s' by simp
      from H1 [OF jn this] jn cn obtain k' where k': "k' < m" "workers s ! k' = Awaiting j" by auto
      then have "k' \<noteq> k" using wk ji by auto
      then have "workers s' ! k' = Awaiting j" using s' k' by simp
      then show "currentIndex s' \<le> j \<or> (\<exists>k'<m. workers s' ! k' = Awaiting j)" using k' by blast
    qed
    have H2': "\<forall>j<?n. \<forall>v. results s' ! j = Some v \<longrightarrow> v = f j \<and> j < currentIndex s'"
    proof (intro allI impI)
      fix j v assume jn: "j < ?n" and some: "results s' ! j = Some v"
      show "v = f j \<and> j < currentIndex s'"
      proof (cases "j = i")
        case True
        then show ?thesis using some s' i_n len ic by simp
      next
        case False
        then have "results s ! j = Some v" using some s' by simp
        from H2 [OF jn this] show ?thesis using s' by simp
      qed
    qed
    have "pool_inv ?n m f s'"
      unfolding pool_inv_def using F' G' H1' H2'
      using s' len calls rej cn by simp
    moreover have "settled s' = Suc (settled s)"
      using cnt s' by (simp add: settled_def)
    ultimately show ?thesis ..
  qed
qed

lemma run_inv:
  assumes proc: "\<And>i. i < length items \<Longrightarrow> processor (items ! i) i = Inr (f i)"
  shows "pool_inv (length items) m f s \<Longrightarrow> run items processor order s = Some s' \<Longrightarrow>
         pool_inv (length items) m f s' \<and> settled s' = settled s + length order"
proof (induction order arbitrary: s)
  case Nil
  then show ?case by simp
next
  case (Cons k ks)
  from Cons.prems(2) obtain s1 where s1: "settle items processor k s = Some s1"
    and r: "run items processor ks s1 = Some s'"
    by (auto split: option.splits)
  from settle_inv [OF Cons.prems(1) proc s1]
  have "pool_inv (length items) m f s1" "settled s1 = Suc (settled s)" by auto
  with Cons.IH [OF _ r] show ?case by simp
qed

lemma run_append:
  "run items processor (xs @ ys) s =
     (case run items processor xs s of None \<Rightarrow> None | Some s' \<Rightarrow> run items processor ys s')"
  by (induction xs arbitrary: s) (auto split: option.splits)

lemma pool_reach:
  assumes "0 \<le> C"
    and "\<And>i. i < length items \<Longrightarrow> processor (items ! i) i = Inr (f i)"
    and "start items C = Inr s0"
    and "run items processor order s0 = Some s"
  shows "pool_inv (length items) (nat (min C (int (length items)))) f s \<and>
         settled s = length order"
proof -
  from pool_inv_start [OF assms(1,3)]
  have "pool_inv (length items) (nat (min C (int (length items)))) f s0" "settled s0 = 0"
    by auto
  with run_inv [OF assms(2) _ assms(4)] show ?thesis by simp
qed

lemma settled_le: "pool_inv n m f s \<Longrightarrow> settled s \<le> n"
  unfolding pool_inv_def settled_def using length_filter_le [of "\<lambda>x. x \<noteq> None" "results s"]
  by simp

lemma filter_all:
  "length (filter P xs) = length xs \<Longrightarrow> i < length xs \<Longrightarrow> P (xs ! i)"
proof (induction xs arbitrary: i)
  case Nil
  then show ?case by simp
next
  case (Cons x xs)
  have le: "length (filter P xs) \<le> length xs" by simp
  show ?case
  proof (cases "P x")
    case True
    with Cons show ?thesis by (cases i) auto
  next
    case False
    with Cons.prems le show ?thesis by simp
  qed
qed

lemma filter_some:
  "length (filter P xs) < length xs \<Longrightarrow> \<exists>i<length xs. \<not> P (xs ! i)"
proof (induction xs)
  case Nil
  then show ?case by simp
next
  case (Cons x xs)
  show ?case
  proof (cases "P x")
    case True
    with Cons obtain i where "i < length xs" "\<not> P (xs ! i)" by auto
    then have "Suc i < length (x # xs) \<and> \<not> P ((x # xs) ! Suc i)" by simp
    then show ?thesis by blast
  next
    case False
    then have "0 < length (x # xs) \<and> \<not> P ((x # xs) ! 0)" by simp
    then show ?thesis by blast
  qed
qed

lemma inv_full:
  assumes inv: "pool_inv n m f s" and full: "settled s = n"
  shows "results s = map (\<lambda>i. Some (f i)) [0..<n]"
    and "list_all (\<lambda>w. w = Done) (workers s)"
    and "rejection s = None"
proof -
  from inv have len: "length (results s) = n" "length (workers s) = m"
    and rej: "rejection s = None"
    and F: "\<And>k. k < m \<Longrightarrow> (case workers s ! k of
               Awaiting i \<Rightarrow> i < currentIndex s \<and> results s ! i = None
             | Done \<Rightarrow> currentIndex s = n
             | Thrown e \<Rightarrow> False)"
    and cn: "currentIndex s \<le> n"
    and H2: "\<And>i v. i < n \<Longrightarrow> results s ! i = Some v \<Longrightarrow> v = f i \<and> i < currentIndex s"
    unfolding pool_inv_def by auto
  have some: "\<And>i. i < n \<Longrightarrow> results s ! i \<noteq> None"
    using filter_all [of "\<lambda>x. x \<noteq> None" "results s"] full len by (simp add: settled_def)
  have val: "\<And>i. i < n \<Longrightarrow> results s ! i = Some (f i)"
  proof -
    fix i assume i: "i < n"
    from some [OF i] obtain v where v: "results s ! i = Some v" by auto
    with H2 [OF i v] show "results s ! i = Some (f i)" by simp
  qed
  show "results s = map (\<lambda>i. Some (f i)) [0..<n]"
    by (rule nth_equalityI) (use len val in auto)
  have "\<And>k. k < m \<Longrightarrow> workers s ! k = Done"
  proof -
    fix k assume k: "k < m"
    show "workers s ! k = Done"
    proof (cases "workers s ! k")
      case (Awaiting i)
      with F [OF k] have "i < n" "results s ! i = None" using cn by auto
      with some show ?thesis by blast
    next
      case Done
      then show ?thesis .
    next
      case (Thrown e)
      with F [OF k] show ?thesis by simp
    qed
  qed
  then show "list_all (\<lambda>w. w = Done) (workers s)"
    using len by (simp add: list_all_length)
  show "rejection s = None" by (rule rej)
qed

lemma inv_partial:
  assumes inv: "pool_inv n m f s" and part: "settled s < n" and m: "0 < m"
  shows "\<exists>k<m. \<exists>i. workers s ! k = Awaiting i"
proof -
  from inv have len: "length (results s) = n" "length (workers s) = m"
    and F: "\<And>k. k < m \<Longrightarrow> (case workers s ! k of
               Awaiting i \<Rightarrow> i < currentIndex s \<and> results s ! i = None
             | Done \<Rightarrow> currentIndex s = n
             | Thrown e \<Rightarrow> False)"
    and H1: "\<And>i. i < n \<Longrightarrow> results s ! i = None \<Longrightarrow>
               currentIndex s \<le> i \<or> (\<exists>k<m. workers s ! k = Awaiting i)"
    unfolding pool_inv_def by auto
  from filter_some [of "\<lambda>x. x \<noteq> None" "results s"] part len
  obtain i where i: "i < n" "results s ! i = None" by (auto simp: settled_def)
  from H1 [OF i] show ?thesis
  proof
    assume "currentIndex s \<le> i"
    then have "currentIndex s \<noteq> n" using i by simp
    with F [OF m] have "\<exists>j. workers s ! 0 = Awaiting j"
      by (cases "workers s ! 0") auto
    then show ?thesis using m by blast
  next
    assume "\<exists>k<m. workers s ! k = Awaiting i"
    then show ?thesis by blast
  qed
qed

lemma pending_promise:
  assumes "pool_inv n m f s" and "k < m" and "workers s ! k = Awaiting i"
  shows "promise_of s = Pending"
proof -
  from assms have "rejection s = None" "length (workers s) = m" by (auto simp: pool_inv_def)
  moreover have "\<not> list_all (\<lambda>w. w = Done) (workers s)"
    using assms(2,3) \<open>length (workers s) = m\<close> by (auto simp: list_all_length)
  ultimately show ?thesis by (simp add: promise_of_def)
qed

lemma settle_enabled:
  "k < length (workers s) \<Longrightarrow> workers s ! k = Awaiting i \<Longrightarrow>
   settle items processor k s \<noteq> None"
  by (simp add: settle_def split: sum.splits prod.splits)

lemma in_flight_set: "i \<in> set (in_flight s) \<longleftrightarrow> Awaiting i \<in> set (workers s)"
  by (auto simp: in_flight_def split: wstate.splits)

lemma in_flight_length: "length (in_flight s) \<le> length (workers s)"
proof -
  have "\<And>ws. length (concat (map (\<lambda>w. case w of Awaiting i \<Rightarrow> [i] | _ \<Rightarrow> []) ws)) \<le> length ws"
  proof -
    fix ws :: "wstate list"
    show "length (concat (map (\<lambda>w. case w of Awaiting i \<Rightarrow> [i] | _ \<Rightarrow> []) ws)) \<le> length ws"
      by (induction ws) (auto split: wstate.splits)
  qed
  then show ?thesis by (simp add: in_flight_def)
qed

lemma in_flight_distinct_aux:
  "(\<And>k k' i. k < length ws \<Longrightarrow> k' < length ws \<Longrightarrow> ws ! k = Awaiting i \<Longrightarrow>
      ws ! k' = Awaiting i \<Longrightarrow> k = k') \<Longrightarrow>
   distinct (concat (map (\<lambda>w. case w of Awaiting i \<Rightarrow> [i] | _ \<Rightarrow> []) ws))"
proof (induction ws)
  case Nil
  then show ?case by simp
next
  case (Cons w ws)
  have tl: "\<And>k k' i. k < length ws \<Longrightarrow> k' < length ws \<Longrightarrow> ws ! k = Awaiting i \<Longrightarrow>
      ws ! k' = Awaiting i \<Longrightarrow> k = k'"
  proof -
    fix k k' i assume a: "k < length ws" "k' < length ws" "ws ! k = Awaiting i" "ws ! k' = Awaiting i"
    from Cons.prems [of "Suc k" "Suc k'" i] a show "k = k'" by simp
  qed
  have d: "distinct (concat (map (\<lambda>w. case w of Awaiting i \<Rightarrow> [i] | _ \<Rightarrow> []) ws))"
    by (rule Cons.IH) (rule tl)
  show ?case
  proof (cases w)
    case (Awaiting i)
    have "Awaiting i \<notin> set ws"
    proof
      assume "Awaiting i \<in> set ws"
      then obtain k where k: "k < length ws" "ws ! k = Awaiting i" by (auto simp: in_set_conv_nth)
      from Cons.prems [of 0 "Suc k" i] k Awaiting show False by simp
    qed
    then have "i \<notin> set (concat (map (\<lambda>w. case w of Awaiting i \<Rightarrow> [i] | _ \<Rightarrow> []) ws))"
      by (auto split: wstate.splits)
    with d Awaiting show ?thesis by simp
  next
    case Done
    with d show ?thesis by simp
  next
    case (Thrown e)
    with d show ?thesis by simp
  qed
qed

lemma inv_in_flight:
  assumes "pool_inv n m f s"
  shows "distinct (in_flight s)" and "length (in_flight s) \<le> m"
    and "set (in_flight s) \<subseteq> {..<currentIndex s}"
proof -
  from assms have len: "length (workers s) = m"
    and F: "\<And>k. k < m \<Longrightarrow> (case workers s ! k of
               Awaiting i \<Rightarrow> i < currentIndex s \<and> results s ! i = None
             | Done \<Rightarrow> currentIndex s = n
             | Thrown e \<Rightarrow> False)"
    and G: "\<And>k k' i. k < m \<Longrightarrow> k' < m \<Longrightarrow> workers s ! k = Awaiting i \<Longrightarrow>
               workers s ! k' = Awaiting i \<Longrightarrow> k = k'"
    unfolding pool_inv_def by auto
  show "distinct (in_flight s)"
    unfolding in_flight_def by (rule in_flight_distinct_aux) (use G len in auto)
  show "length (in_flight s) \<le> m" using in_flight_length [of s] len by simp
  show "set (in_flight s) \<subseteq> {..<currentIndex s}"
  proof
    fix i assume "i \<in> set (in_flight s)"
    then have "Awaiting i \<in> set (workers s)" by (simp add: in_flight_set)
    then obtain k where k: "k < m" "workers s ! k = Awaiting i"
      using len by (auto simp: in_set_conv_nth)
    from F [OF k(1)] k(2) show "i \<in> {..<currentIndex s}" by simp
  qed
qed

lemma lookup_row_for:
  "i < length ids \<Longrightarrow> lookup_row fetch upstream_for (ids ! i) i = Inr (row_for fetch upstream_for ids i)"
  by (simp add: lookup_row_def row_for_def)

lemma cas_number_to_row: "cas_number (to_row c r) = c"
  by (simp add: to_row_def split: option.splits)

lemma inv_fulfilled:
  assumes inv: "pool_inv n m f s" and m: "0 < n \<Longrightarrow> 0 < m"
    and ful: "promise_of s = Fulfilled rows"
  shows "rows = map (\<lambda>i. Some (f i)) [0..<n]" and "settled s = n"
proof -
  from ful have rows: "rows = results s" and fin: "list_all (\<lambda>w. w = Done) (workers s)"
    by (auto simp: promise_of_def split: option.splits if_splits)
  from inv have len: "length (results s) = n" "length (workers s) = m"
    and F: "\<And>k. k < m \<Longrightarrow> (case workers s ! k of
               Awaiting i \<Rightarrow> i < currentIndex s \<and> results s ! i = None
             | Done \<Rightarrow> currentIndex s = n
             | Thrown e \<Rightarrow> False)"
    and H1: "\<And>i. i < n \<Longrightarrow> results s ! i = None \<Longrightarrow>
               currentIndex s \<le> i \<or> (\<exists>k<m. workers s ! k = Awaiting i)"
    unfolding pool_inv_def by auto
  have allDone: "\<And>k. k < m \<Longrightarrow> workers s ! k = Done"
    using fin len by (simp add: list_all_length)
  have "\<not> settled s < n"
  proof
    assume part: "settled s < n"
    then have "0 < n" by simp
    from inv_partial [OF inv part m [OF this]] allDone show False by auto
  qed
  with settled_le [OF inv] show full: "settled s = n" by simp
  from inv_full(1) [OF inv full] rows show "rows = map (\<lambda>i. Some (f i)) [0..<n]" by simp
qed

lemma pool_outcome:
  assumes C: "1 \<le> C"
    and all: "\<forall>i<length items. processor (items ! i) i = Inr (f i)"
    and p: "processInParallel items processor C order = Some p"
  shows "length order \<le> length items"
    and "length order = length items \<Longrightarrow> p = Fulfilled (map (\<lambda>i. Some (f i)) [0..<length items])"
    and "length order < length items \<Longrightarrow>
           p = Pending \<and> (\<exists>k. processInParallel items processor C (order @ [k]) \<noteq> None)"
proof -
  let ?n = "length items"
  let ?m = "nat (min C (int ?n))"
  have C0: "0 \<le> C" using C by simp
  have proc: "\<And>i. i < length items \<Longrightarrow> processor (items ! i) i = Inr (f i)"
    using all by simp
  obtain s0 :: "'b pool" where s0: "start items C = Inr s0"
    using start_closed [OF C0, of items] by blast
  from p s0 obtain s where s: "run items processor order s0 = Some s" and ps: "p = promise_of s"
    by (auto simp: processInParallel_def)
  from pool_reach [OF C0 proc s0 s]
  have inv: "pool_inv ?n ?m f s" and cnt: "settled s = length order" by auto
  from settled_le [OF inv] cnt show "length order \<le> ?n" by simp
  {
    assume "length order = ?n"
    with cnt have full: "settled s = ?n" by simp
    from inv_full [OF inv full] ps
    show "p = Fulfilled (map (\<lambda>i. Some (f i)) [0..<?n])"
      by (simp add: promise_of_def)
  }
  {
    assume "length order < ?n"
    with cnt have part: "settled s < ?n" by simp
    then have "0 < ?n" by arith
    then have "0 < ?m" using C by simp
    from inv_partial [OF inv part this]
    obtain k i where k: "k < ?m" "workers s ! k = Awaiting i" by blast
    from inv have "length (workers s) = ?m" by (simp add: pool_inv_def)
    with k have "settle items processor k s \<noteq> None" by (intro settle_enabled) auto
    then obtain s' where s': "settle items processor k s = Some s'" by auto
    have "run items processor (order @ [k]) s0 = Some s'"
      by (simp add: run_append s s')
    then have "processInParallel items processor C (order @ [k]) \<noteq> None"
      by (simp add: processInParallel_def s0)
    moreover have "p = Pending" using pending_promise [OF inv k] ps by simp
    ultimately show "p = Pending \<and> (\<exists>k. processInParallel items processor C (order @ [k]) \<noteq> None)"
      by blast
  }
qed

text \<open>
  C2. For a concurrency bound of at least 1 and any order in which the lookups complete:
  the promise is pending, and some lookup can still complete, until as many lookups have
  completed as there are identifiers; then it is fulfilled with as many rows as
  identifiers, row \<open>i\<close> being the row of the lookup of identifier \<open>i\<close> and carrying that
  identifier.
\<close>

theorem pipeline_results_in_order:
  assumes "1 \<le> C"
    and "processInParallel ids (lookup_row fetch upstream_for) C order = Some p"
  shows "length order \<le> length ids \<and>
    (length order = length ids \<longrightarrow>
       (\<exists>rows. p = Fulfilled (map Some rows) \<and> length rows = length ids \<and>
          (\<forall>i<length ids.
             rows ! i = to_row (ids ! i)
               (fst (getCompoundByCas fetch (ids ! i) \<lparr>upstream = upstream_for i, trace = []\<rparr>)) \<and>
             cas_number (rows ! i) = ids ! i))) \<and>
    (length order < length ids \<longrightarrow>
       p = Pending \<and>
       (\<exists>k. processInParallel ids (lookup_row fetch upstream_for) C (order @ [k]) \<noteq> None))"
proof -
  have proc: "\<forall>i<length ids.
      lookup_row fetch upstream_for (ids ! i) i = Inr (row_for fetch upstream_for ids i)"
    by (simp add: lookup_row_for)
  note out = pool_outcome [OF assms(1) proc assms(2)]
  have "length order = length ids \<longrightarrow>
       (\<exists>rows. p = Fulfilled (map Some rows) \<and> length rows = length ids \<and>
          (\<forall>i<length ids.
             rows ! i = to_row (ids ! i)
               (fst (getCompoundByCas fetch (ids ! i) \<lparr>upstream = upstream_for i, trace = []\<rparr>)) \<and>
             cas_number (rows ! i) = ids ! i))"
  proof
    assume "length order = length ids"
    from out(2) [OF this]
    have "p = Fulfilled (map Some (map (row_for fetch upstream_for ids) [0..<length ids]))"
      by (simp add: comp_def)
    moreover have "\<forall>i<length ids.
        map (row_for fetch upstream_for ids) [0..<length ids] ! i = to_row (ids ! i)
               (fst (getCompoundByCas fetch (ids ! i) \<lparr>upstream = upstream_for i, trace = []\<rparr>)) \<and>
        cas_number (map (row_for fetch upstream_for ids) [0..<length ids] ! i) = ids ! i"
      by (simp add: row_for_def cas_number_to_row)
    ultimately show "\<exists>rows. p = Fulfilled (map Some rows) \<and> length rows = length ids \<and>
          (\<forall>i<length ids.
             rows ! i = to_row (ids ! i)
               (fst (getCompoundByCas fetch (ids ! i) \<lparr>upstream = upstream_for i, trace = []\<rparr>)) \<and>
             cas_number (rows ! i) = ids ! i)"
      by (intro exI [of _ "map (row_for fetch upstream_for ids) [0..<length ids]"])
        (simp add: cas_number_to_row)
  qed
  with out(1) out(3) show ?thesis by blast
qed

lemma pipeline_reach:
  assumes "0 \<le> C" and "start ids C = Inr s0"
    and "run ids (lookup_row fetch upstream_for) order s0 = Some s"
  shows "pool_inv (length ids) (nat (min C (int (length ids)))) (row_for fetch upstream_for ids) s"
    and "settled s = length order"
proof -
  have proc: "\<And>i. i < length ids \<Longrightarrow>
      lookup_row fetch upstream_for (ids ! i) i = Inr (row_for fetch upstream_for ids i)"
    by (rule lookup_row_for)
  from pool_reach [OF assms(1) proc assms(2,3)]
  show "pool_inv (length ids) (nat (min C (int (length ids)))) (row_for fetch upstream_for ids) s"
    and "settled s = length order"
    by auto
qed

text \<open>
  C8. In every state of a run with bound \<open>C\<close> (5 in \<^verbatim>\<open>processChemicals\<close>): there are
  min(C, item count) workers, so at most \<open>C\<close> lookups in flight, on distinct indices; the
  indices claimed so far are 0, 1, ... up to the cursor, each once; a filled slot holds
  the row of its own index, which has been claimed and is no longer in flight; and when
  all lookups have completed every index has been claimed exactly once.
\<close>

theorem pool_bounded_and_exclusive:
  assumes "1 \<le> C" and "start ids C = Inr s0"
    and "run ids (lookup_row fetch upstream_for) order s0 = Some s"
  shows "CONCURRENCY_LIMIT = 5 \<and>
    length (workers s) = min (nat C) (length ids) \<and>
    length (in_flight s) \<le> nat C \<and>
    distinct (in_flight s) \<and>
    currentIndex s \<le> length ids \<and>
    calls s = [0..<currentIndex s] \<and>
    set (in_flight s) \<subseteq> set (calls s) \<and>
    (\<forall>i<length ids. \<forall>v. results s ! i = Some v \<longrightarrow>
       i \<in> set (calls s) \<and> i \<notin> set (in_flight s) \<and>
       v = to_row (ids ! i)
             (fst (getCompoundByCas fetch (ids ! i) \<lparr>upstream = upstream_for i, trace = []\<rparr>))) \<and>
    (length order = length ids \<longrightarrow>
       calls s = [0..<length ids] \<and> in_flight s = [] \<and> promise_of s = Fulfilled (results s))"
proof -
  let ?n = "length ids"
  let ?m = "nat (min C (int ?n))"
  let ?f = "row_for fetch upstream_for ids"
  have C0: "0 \<le> C" using assms(1) by simp
  note inv = pipeline_reach(1) [OF C0 assms(2,3)]
  note cnt = pipeline_reach(2) [OF C0 assms(2,3)]
  have m: "?m = min (nat C) ?n" using C0 by simp
  from inv have len: "length (workers s) = ?m" "length (results s) = ?n"
    and cur: "currentIndex s \<le> ?n" and calls: "calls s = [0..<currentIndex s]"
    and F: "\<And>k. k < ?m \<Longrightarrow> (case workers s ! k of
               Awaiting i \<Rightarrow> i < currentIndex s \<and> results s ! i = None
             | Done \<Rightarrow> currentIndex s = ?n
             | Thrown e \<Rightarrow> False)"
    and H2: "\<And>i v. i < ?n \<Longrightarrow> results s ! i = Some v \<Longrightarrow> v = ?f i \<and> i < currentIndex s"
    unfolding pool_inv_def by auto
  note fl = inv_in_flight [OF inv]
  have a: "length (workers s) = min (nat C) ?n" using len m by simp
  have b: "length (in_flight s) \<le> nat C" using fl(2) m by simp
  have c: "set (in_flight s) \<subseteq> set (calls s)" using fl(3) calls by auto
  have d: "\<forall>i<?n. \<forall>v. results s ! i = Some v \<longrightarrow>
       i \<in> set (calls s) \<and> i \<notin> set (in_flight s) \<and>
       v = to_row (ids ! i)
             (fst (getCompoundByCas fetch (ids ! i) \<lparr>upstream = upstream_for i, trace = []\<rparr>))"
  proof (intro allI impI)
    fix i v assume i: "i < ?n" and v: "results s ! i = Some v"
    from H2 [OF i v] have vi: "v = ?f i" and ic: "i < currentIndex s" by auto
    have "i \<notin> set (in_flight s)"
    proof
      assume "i \<in> set (in_flight s)"
      then have "Awaiting i \<in> set (workers s)" by (simp add: in_flight_set)
      then obtain k where k: "k < ?m" "workers s ! k = Awaiting i"
        using len by (auto simp: in_set_conv_nth)
      from F [OF k(1)] k(2) v show False by simp
    qed
    then show "i \<in> set (calls s) \<and> i \<notin> set (in_flight s) \<and>
       v = to_row (ids ! i)
             (fst (getCompoundByCas fetch (ids ! i) \<lparr>upstream = upstream_for i, trace = []\<rparr>))"
      using vi ic calls by (simp add: row_for_def)
  qed
  have e: "length order = ?n \<longrightarrow>
       calls s = [0..<?n] \<and> in_flight s = [] \<and> promise_of s = Fulfilled (results s)"
  proof
    assume "length order = ?n"
    with cnt have full: "settled s = ?n" by simp
    note fin = inv_full [OF inv full]
    have nofl: "in_flight s = []"
    proof (rule ccontr)
      assume "in_flight s \<noteq> []"
      then obtain i where "i \<in> set (in_flight s)" by (cases "in_flight s") auto
      then have "Awaiting i \<in> set (workers s)" by (simp add: in_flight_set)
      with fin(2) show False by (auto simp: list_all_iff)
    qed
    have "currentIndex s = ?n"
    proof (cases "?n = 0")
      case True
      with cur show ?thesis by simp
    next
      case False
      then have "results s ! (?n - 1) = Some (?f (?n - 1))" using fin(1) by simp
      from H2 [OF _ this] False cur show ?thesis by simp
    qed
    with calls nofl fin show "calls s = [0..<?n] \<and> in_flight s = [] \<and>
        promise_of s = Fulfilled (results s)"
      by (simp add: promise_of_def)
  qed
  from a b fl(1) cur calls c d e show ?thesis by (simp add: CONCURRENCY_LIMIT_def)
qed

text \<open>
  C9. Two runs over the same records that meet the same upstream responses hand the same
  rows to the writer, whatever the two completion orders.
\<close>

theorem pipeline_deterministic:
  assumes "processChemicals fetch upstream_for records order1 = Some (Fulfilled rows1)"
    and "processChemicals fetch upstream_for records order2 = Some (Fulfilled rows2)"
  shows "rows1 = rows2"
proof -
  let ?ids = "readCasNumbersFromCsv records"
  let ?n = "length ?ids"
  let ?m = "nat (min CONCURRENCY_LIMIT (int ?n))"
  let ?f = "row_for fetch upstream_for ?ids"
  have C0: "0 \<le> CONCURRENCY_LIMIT" by (simp add: CONCURRENCY_LIMIT_def)
  have m: "0 < ?n \<Longrightarrow> 0 < ?m" by (simp add: CONCURRENCY_LIMIT_def)
  obtain s0 :: "OutputRow pool" where s0: "start ?ids CONCURRENCY_LIMIT = Inr s0"
    using start_closed [OF C0, of ?ids] by blast
  have fixed: "rows = map (\<lambda>i. Some (?f i)) [0..<?n]"
    if "processChemicals fetch upstream_for records order = Some (Fulfilled rows)" for order rows
  proof -
    from that s0 obtain s where s: "run ?ids (lookup_row fetch upstream_for) order s0 = Some s"
      and ps: "promise_of s = Fulfilled rows"
      by (auto simp: processChemicals_def processInParallel_def)
    from inv_fulfilled(1) [OF pipeline_reach(1) [OF C0 s0 s] m ps] show ?thesis .
  qed
  from fixed [OF assms(1)] fixed [OF assms(2)] show ?thesis by simp
qed

subsection \<open>The pipeline on three identifiers\<close>

lemma demo_lookup_0:
  "fst (getCompoundByCas scripted ''50-00-0'' \<lparr>upstream = demo_upstream 0, trace = []\<rparr>) =
     \<lparr>data = Some (build_data 712 formaldehyde), error = None\<rparr>"
  by (simp add: demo_upstream_def getCompoundByCas_scripted_ok)

lemma demo_lookup_1:
  "fst (getCompoundByCas scripted ''0000-00-0'' \<lparr>upstream = demo_upstream (Suc 0), trace = []\<rparr>) =
     \<lparr>data = None, error = Some ''No compound found for this CAS number''\<rparr>"
  by (simp add: demo_upstream_def getCompoundByCas_def getCompoundByCas_try_def truthy_num_def
      Let_def cids_json_def fetch_ok_scripted first_cid_def first_of_def)

lemma demo_lookup_2:
  "fst (getCompoundByCas scripted ''64-17-5'' \<lparr>upstream = demo_upstream 2, trace = []\<rparr>) =
     \<lparr>data = None, error = Some ''Max retries exceeded''\<rparr>"
  by (simp add: demo_upstream_def getCompoundByCas_def getCompoundByCas_try_def
      fetchWithRetry_def fetchWithRetry_from.simps do_fetch_def do_sleep_def scripted_def
      http_def ok_def errorMessage_def)

lemma demo_build: \<open>build_data 712 formaldehyde =
    \<lparr>chemical_name = ''formaldehyde'', smiles_code = ''C=O'', molecular_formula = [],
     structure_image_url =
       ''=IMAGE("https://pubchem.ncbi.nlm.nih.gov/rest/pug/compound/cid/712/PNG")''\<rparr>\<close>
  by (simp add: build_data_def formaldehyde_def or_literal_def or_else_def truthy_str_def
      structureImageUrl_def number_to_string_712)

lemma demo_row_for:
  "row_for scripted demo_upstream demo_ids 0 = demo_rows ! 0"
  "row_for scripted demo_upstream demo_ids (Suc 0) = demo_rows ! Suc 0"
  "row_for scripted demo_upstream demo_ids 2 = demo_rows ! 2"
  by (simp_all add: row_for_def demo_ids_def demo_rows_def demo_lookup_0 demo_lookup_1
      demo_lookup_2 demo_build to_row_def or_literal_def truthy_str_def)

lemma demo_read: "readCasNumbersFromCsv demo_records = demo_ids"
  by (simp add: readCasNumbersFromCsv_def demo_records_def demo_ids_def casNumber_of_def
      or_else_def truthy_str_def trim_cas Let_def)

lemmas pool_eval =
  processInParallel_def start_def Let_def demo_ids_def numeral_2_eq_2 numeral_3_eq_3 claim_def
  settle_def promise_of_def lookup_row_def

lemma demo_run_101:
  "processInParallel demo_ids (lookup_row scripted demo_upstream) 2 [1, 0, 1] =
   Some (Fulfilled (map (\<lambda>i. Some (row_for scripted demo_upstream demo_ids i)) [0, 1, 2]))"
  by (simp add: pool_eval row_for_def)

lemma demo_run_10:
  "processInParallel demo_ids (lookup_row scripted demo_upstream) 2 [1, 0] = Some Pending"
  by (simp add: pool_eval)

text \<open>C2 on three identifiers and two workers, the second worker finishing first.\<close>

theorem pipeline_results_in_order_witness:
  "processInParallel demo_ids (lookup_row scripted demo_upstream) 2 [1, 0, 1] =
     Some (Fulfilled (map Some demo_rows)) \<and>
   map cas_number demo_rows = demo_ids \<and>
   processInParallel demo_ids (lookup_row scripted demo_upstream) 2 [1, 0] = Some Pending \<and>
   (\<exists>k. processInParallel demo_ids (lookup_row scripted demo_upstream) 2 ([1, 0] @ [k]) \<noteq> None)"
proof -
  have le: "(1::int) \<le> 2" by simp
  have n: "length demo_ids = 3" by (simp add: demo_ids_def)
  have full: "length [1, 0, 1 :: nat] = length demo_ids" by (simp add: n)
  have part: "length [1, 0 :: nat] < length demo_ids" by (simp add: n)
  note th = pipeline_results_in_order [OF le demo_run_101]
  from th [THEN conjunct2, THEN conjunct1, THEN mp, OF full]
  obtain rows where p: "Fulfilled (map (\<lambda>i. Some (row_for scripted demo_upstream demo_ids i)) [0, 1, 2]) =
        Fulfilled (map Some rows)"
    and len: "length rows = length demo_ids"
    and each: "\<forall>i<length demo_ids. rows ! i = to_row (demo_ids ! i)
               (fst (getCompoundByCas scripted (demo_ids ! i) \<lparr>upstream = demo_upstream i, trace = []\<rparr>)) \<and>
             cas_number (rows ! i) = demo_ids ! i"
    by blast
  have r0: "rows ! 0 = demo_rows ! 0"
    using each [rule_format, of 0] demo_row_for(1) by (simp add: n row_for_def)
  have r1: "rows ! Suc 0 = demo_rows ! Suc 0"
    using each [rule_format, of "Suc 0"] demo_row_for(2) by (simp add: n row_for_def)
  have r2: "rows ! 2 = demo_rows ! 2"
    using each [rule_format, of 2] demo_row_for(3) by (simp add: n row_for_def)
  have "rows = demo_rows"
  proof (rule nth_equalityI)
    show "length rows = length demo_rows" using len by (simp add: demo_rows_def n)
    fix i assume "i < length rows"
    then have "i = 0 \<or> i = Suc 0 \<or> i = 2" using len n by auto
    then show "rows ! i = demo_rows ! i" using r0 r1 r2 by auto
  qed
  with p demo_run_101 have a: "processInParallel demo_ids (lookup_row scripted demo_upstream) 2 [1, 0, 1] =
     Some (Fulfilled (map Some demo_rows))"
    by simp
  have b: "map cas_number demo_rows = demo_ids"
    by (simp add: demo_rows_def demo_ids_def)
  from pipeline_results_in_order [OF le demo_run_10, THEN conjunct2, THEN conjunct2, THEN mp, OF part]
  have c: "\<exists>k. processInParallel demo_ids (lookup_row scripted demo_upstream) 2 ([1, 0] @ [k]) \<noteq> None"
    by blast
  from a b demo_run_10 c show ?thesis by (simp only: simp_thms)
qed

lemma demo_start:
  "start demo_ids 2 =
     Inr \<lparr>currentIndex = 2, results = [None, None, None :: OutputRow option],
          workers = [Awaiting 0, Awaiting 1], rejection = None, calls = [0, 1]\<rparr>"
  by (simp add: start_def Let_def demo_ids_def numeral_2_eq_2 numeral_3_eq_3 claim_def)

lemma demo_step:
  "run demo_ids (lookup_row scripted demo_upstream) [1]
     \<lparr>currentIndex = 2, results = [None, None, None],
      workers = [Awaiting 0, Awaiting 1], rejection = None, calls = [0, 1]\<rparr> =
   Some \<lparr>currentIndex = 3,
         results = [None, Some (row_for scripted demo_upstream demo_ids 1), None],
         workers = [Awaiting 0, Awaiting 2], rejection = None, calls = [0, 1, 2]\<rparr>"
  by (simp add: pool_eval row_for_def)

text \<open>C8 after the second of two workers has finished its first lookup of three.\<close>

theorem pool_bounded_and_exclusive_witness:
  "(\<exists>s0 s. start demo_ids 2 = Inr s0 \<and>
      run demo_ids (lookup_row scripted demo_upstream) [1] s0 = Some s \<and>
      workers s = [Awaiting 0, Awaiting 2] \<and> in_flight s = [0, 2] \<and>
      length (in_flight s) \<le> nat 2 \<and> distinct (in_flight s) \<and>
      calls s = [0, 1, 2] \<and> results s = [None, Some (demo_rows ! 1), None])"
proof -
  let ?init = "\<lparr>currentIndex = 2, results = [None, None, None :: OutputRow option],
          workers = [Awaiting 0, Awaiting 1], rejection = None, calls = [0, 1]\<rparr>"
  let ?next = "\<lparr>currentIndex = 3,
         results = [None, Some (row_for scripted demo_upstream demo_ids 1), None],
         workers = [Awaiting 0, Awaiting 2], rejection = None, calls = [0, 1, 2]\<rparr>"
  have le: "(1::int) \<le> 2" by simp
  note th = pool_bounded_and_exclusive [OF le demo_start demo_step]
  have a: "start demo_ids 2 = Inr ?init" by (rule demo_start)
  have b: "run demo_ids (lookup_row scripted demo_upstream) [1] ?init = Some ?next" by (rule demo_step)
  have c: "workers ?next = [Awaiting 0, Awaiting 2]" by simp
  have d: "in_flight ?next = [0, 2]" by (simp add: in_flight_def)
  from th have e: "length (in_flight ?next) \<le> nat 2" by blast
  from th have f: "distinct (in_flight ?next)" by blast
  have g: "calls ?next = [0, 1, 2]" by simp
  have h: "results ?next = [None, Some (demo_rows ! 1), None]"
    using demo_row_for(2) by simp
  from a b c d e f g h have "start demo_ids 2 = Inr ?init \<and>
      run demo_ids (lookup_row scripted demo_upstream) [1] ?init = Some ?next \<and>
      workers ?next = [Awaiting 0, Awaiting 2] \<and> in_flight ?next = [0, 2] \<and>
      length (in_flight ?next) \<le> nat 2 \<and> distinct (in_flight ?next) \<and>
      calls ?next = [0, 1, 2] \<and> results ?next = [None, Some (demo_rows ! 1), None]"
    by (intro conjI)
  then show ?thesis by blast
qed

lemma demo_all_012:
  "processChemicals scripted demo_upstream demo_records [0, 1, 2] =
   Some (Fulfilled (map (\<lambda>i. Some (row_for scripted demo_upstream demo_ids i)) [0, 1, 2]))"
  unfolding processChemicals_def demo_read
  by (simp add: pool_eval CONCURRENCY_LIMIT_def row_for_def)

lemma demo_all_210:
  "processChemicals scripted demo_upstream demo_records [2, 1, 0] =
   Some (Fulfilled (map (\<lambda>i. Some (row_for scripted demo_upstream demo_ids i)) [0, 1, 2]))"
  unfolding processChemicals_def demo_read
  by (simp add: pool_eval CONCURRENCY_LIMIT_def row_for_def)

text \<open>C9 on the completion orders 0, 1, 2 and 2, 1, 0.\<close>

theorem pipeline_deterministic_witness:
  "(\<exists>rows. processChemicals scripted demo_upstream demo_records [0, 1, 2] = Some (Fulfilled rows) \<and>
      processChemicals scripted demo_upstream demo_records [2, 1, 0] = Some (Fulfilled rows) \<and>
      rows = map Some demo_rows)"
proof -
  let ?rows = "map (\<lambda>i. Some (row_for scripted demo_upstream demo_ids i)) [0, 1, 2]"
  have "?rows = ?rows" by (rule pipeline_deterministic [OF demo_all_012 demo_all_210])
  moreover have "?rows = map Some demo_rows" by (simp add: demo_row_for demo_rows_def)
  ultimately show ?thesis using demo_all_012 demo_all_210 by simp
qed

subsection \<open>Errors stay in their row\<close>

lemma lookup_shape:
  "(\<exists>d. fst (getCompoundByCas fetch casNumber st) = \<lparr>data = Some d, error = None\<rparr>) \<or>
   (\<exists>m. fst (getCompoundByCas fetch casNumber st) = \<lparr>data = None, error = Some m\<rparr>)"
proof (cases "getCompoundByCas_try fetch casNumber st")
  case (Pair res st')
  show ?thesis
  proof (cases res)
    case (Inl e)
    with Pair show ?thesis by (simp add: getCompoundByCas_def)
  next
    case (Inr r)
    have "(\<exists>d. r = \<lparr>data = Some d, error = None\<rparr>) \<or> (\<exists>m. r = \<lparr>data = None, error = Some m\<rparr>)"
      using Pair Inr
      by (auto simp: getCompoundByCas_try_def Let_def
          split: prod.splits sum.splits option.splits if_splits)
    with Pair Inr show ?thesis by (simp add: getCompoundByCas_def)
  qed
qed

lemma row_shape:
  assumes "(\<exists>d. r = \<lparr>data = Some d, error = None\<rparr>) \<or> (\<exists>m. r = \<lparr>data = None, error = Some m\<rparr>)"
  shows "(row_status (to_row c r) = ''success'' \<and> row_error (to_row c r) = None \<and>
          (\<exists>d. data r = Some d \<and> ChemicalData.truncate (to_row c r) = d)) \<or>
         (row_status (to_row c r) = ''failed'' \<and> (\<exists>m. row_error (to_row c r) = Some m) \<and>
          data r = None \<and>
          chemical_name (to_row c r) = [] \<and> smiles_code (to_row c r) = [] \<and>
          molecular_formula (to_row c r) = [] \<and> structure_image_url (to_row c r) = [])"
  using assms by (auto simp: to_row_def ChemicalData.truncate_def)

lemma pipeline_not_rejected:
  "processChemicals fetch upstream_for records order \<noteq> Some (RejectedWith e)"
proof
  let ?ids = "readCasNumbersFromCsv records"
  assume rej: "processChemicals fetch upstream_for records order = Some (RejectedWith e)"
  have C0: "0 \<le> CONCURRENCY_LIMIT" by (simp add: CONCURRENCY_LIMIT_def)
  obtain s0 :: "OutputRow pool" where s0: "start ?ids CONCURRENCY_LIMIT = Inr s0"
    using start_closed [OF C0, of ?ids] by blast
  from rej s0 obtain s where s: "run ?ids (lookup_row fetch upstream_for) order s0 = Some s"
    and ps: "promise_of s = RejectedWith e"
    by (auto simp: processChemicals_def processInParallel_def)
  from pipeline_reach(1) [OF C0 s0 s] have "rejection s = None" by (simp add: pool_inv_def)
  with ps show False by (simp add: promise_of_def split: if_splits)
qed

text \<open>
  C4. A lookup returns a record and no error, or an error and no record; whatever its
  \<^verbatim>\<open>try\<close> block throws becomes a failed result with the message; the row is a success
  row with the record's fields and no error, or a failed row with an error and empty
  fields; and the promise of the pipeline is never rejected.
\<close>

theorem lookup_errors_contained:
  "((\<exists>d. fst (getCompoundByCas fetch casNumber st) = \<lparr>data = Some d, error = None\<rparr>) \<or>
    (\<exists>m. fst (getCompoundByCas fetch casNumber st) = \<lparr>data = None, error = Some m\<rparr>)) \<and>
   (getCompoundByCas_try fetch casNumber st = (Inl e, st') \<longrightarrow>
      getCompoundByCas fetch casNumber st =
        (\<lparr>data = None, error = Some (errorMessage e)\<rparr>, st')) \<and>
   ((row_status (to_row casNumber (fst (getCompoundByCas fetch casNumber st))) = ''success'' \<and>
     row_error (to_row casNumber (fst (getCompoundByCas fetch casNumber st))) = None \<and>
     (\<exists>d. data (fst (getCompoundByCas fetch casNumber st)) = Some d \<and>
          ChemicalData.truncate (to_row casNumber (fst (getCompoundByCas fetch casNumber st))) = d)) \<or>
    (row_status (to_row casNumber (fst (getCompoundByCas fetch casNumber st))) = ''failed'' \<and>
     (\<exists>m. row_error (to_row casNumber (fst (getCompoundByCas fetch casNumber st))) = Some m) \<and>
     data (fst (getCompoundByCas fetch casNumber st)) = None \<and>
     chemical_name (to_row casNumber (fst (getCompoundByCas fetch casNumber st))) = [] \<and>
     smiles_code (to_row casNumber (fst (getCompoundByCas fetch casNumber st))) = [] \<and>
     molecular_formula (to_row casNumber (fst (getCompoundByCas fetch casNumber st))) = [] \<and>
     structure_image_url (to_row casNumber (fst (getCompoundByCas fetch casNumber st))) = [])) \<and>
   processChemicals fetch upstream_for records order \<noteq> Some (RejectedWith e')"
proof (intro conjI)
  show "(\<exists>d. fst (getCompoundByCas fetch casNumber st) = \<lparr>data = Some d, error = None\<rparr>) \<or>
    (\<exists>m. fst (getCompoundByCas fetch casNumber st) = \<lparr>data = None, error = Some m\<rparr>)"
    by (rule lookup_shape)
  show "getCompoundByCas_try fetch casNumber st = (Inl e, st') \<longrightarrow>
      getCompoundByCas fetch casNumber st =
        (\<lparr>data = None, error = Some (errorMessage e)\<rparr>, st')"
    by (simp add: getCompoundByCas_def)
  show "(row_status (to_row casNumber (fst (getCompoundByCas fetch casNumber st))) = ''success'' \<and>
     row_error (to_row casNumber (fst (getCompoundByCas fetch casNumber st))) = None \<and>
     (\<exists>d. data (fst (getCompoundByCas fetch casNumber st)) = Some d \<and>
          ChemicalData.truncate (to_row casNumber (fst (getCompoundByCas fetch casNumber st))) = d)) \<or>
    (row_status (to_row casNumber (fst (getCompoundByCas fetch casNumber st))) = ''failed'' \<and>
     (\<exists>m. row_error (to_row casNumber (fst (getCompoundByCas fetch casNumber st))) = Some m) \<and>
     data (fst (getCompoundByCas fetch casNumber st)) = None \<and>
     chemical_name (to_row casNumber (fst (getCompoundByCas fetch casNumber st))) = [] \<and>
     smiles_code (to_row casNumber (fst (getCompoundByCas fetch casNumber st))) = [] \<and>
     molecular_formula (to_row casNumber (fst (getCompoundByCas fetch casNumber st))) = [] \<and>
     structure_image_url (to_row casNumber (fst (getCompoundByCas fetch casNumber st))) = [])"
    by (rule row_shape [OF lookup_shape])
  show "processChemicals fetch upstream_for records order \<noteq> Some (RejectedWith e')"
    by (rule pipeline_not_rejected)
qed

lemma try_rejected:
  "getCompoundByCas_try scripted casNumber \<lparr>upstream = Rejected e # rest, trace = []\<rparr> =
     (Inl e, \<lparr>upstream = rest, trace = [Fetch (searchUrl casNumber)]\<rparr>)"
  by (simp add: getCompoundByCas_try_def fetchWithRetry_def fetchWithRetry_from.simps
      do_fetch_def scripted_def)

lemma try_bad_json:
  "getCompoundByCas_try scripted casNumber \<lparr>upstream = [http 200], trace = []\<rparr> =
     (Inl (Error ''Unexpected end of JSON input''),
      \<lparr>upstream = [], trace = [Fetch (searchUrl casNumber)]\<rparr>)"
  by (simp add: getCompoundByCas_try_def fetchWithRetry_def fetchWithRetry_from.simps
      do_fetch_def scripted_def http_def ok_def)

text \<open>
  C4 on a lost connection, a thrown value that is no Error, a body that is not JSON, and
  a batch with two failing identifiers.
\<close>

theorem lookup_errors_contained_witness:
  "getCompoundByCas scripted ''50-00-0''
     \<lparr>upstream = [Rejected (Error ''fetch failed'')], trace = []\<rparr> =
     (\<lparr>data = None, error = Some ''fetch failed''\<rparr>,
      \<lparr>upstream = [], trace = [Fetch (searchUrl ''50-00-0'')]\<rparr>) \<and>
   getCompoundByCas scripted ''50-00-0'' \<lparr>upstream = [Rejected NonError], trace = []\<rparr> =
     (\<lparr>data = None, error = Some ''Unknown error occurred''\<rparr>,
      \<lparr>upstream = [], trace = [Fetch (searchUrl ''50-00-0'')]\<rparr>) \<and>
   getCompoundByCas scripted ''50-00-0'' \<lparr>upstream = [http 200], trace = []\<rparr> =
     (\<lparr>data = None, error = Some ''Unexpected end of JSON input''\<rparr>,
      \<lparr>upstream = [], trace = [Fetch (searchUrl ''50-00-0'')]\<rparr>) \<and>
   processChemicals scripted demo_upstream demo_records [2, 1, 0] =
     Some (Fulfilled (map Some demo_rows))"
proof -
  note th = lookup_errors_contained [THEN conjunct2, THEN conjunct1, THEN mp]
  have a: "getCompoundByCas scripted ''50-00-0''
     \<lparr>upstream = [Rejected (Error ''fetch failed'')], trace = []\<rparr> =
     (\<lparr>data = None, error = Some ''fetch failed''\<rparr>,
      \<lparr>upstream = [], trace = [Fetch (searchUrl ''50-00-0'')]\<rparr>)"
    using th [OF try_rejected] by (simp add: errorMessage_def)
  have b: "getCompoundByCas scripted ''50-00-0'' \<lparr>upstream = [Rejected NonError], trace = []\<rparr> =
     (\<lparr>data = None, error = Some ''Unknown error occurred''\<rparr>,
      \<lparr>upstream = [], trace = [Fetch (searchUrl ''50-00-0'')]\<rparr>)"
    using th [OF try_rejected] by (simp add: errorMessage_def)
  have c: "getCompoundByCas scripted ''50-00-0'' \<lparr>upstream = [http 200], trace = []\<rparr> =
     (\<lparr>data = None, error = Some ''Unexpected end of JSON input''\<rparr>,
      \<lparr>upstream = [], trace = [Fetch (searchUrl ''50-00-0'')]\<rparr>)"
    using th [OF try_bad_json] by (simp add: errorMessage_def)
  have d: "processChemicals scripted demo_upstream demo_records [2, 1, 0] =
     Some (Fulfilled (map Some demo_rows))"
    using demo_all_210 by (simp add: demo_row_for demo_rows_def)
  from a b c d show ?thesis by (simp only: simp_thms)
qed

end
